theory Spec2Isabelle
  imports Complex_Main "HOL-Library.Char_ord" "HOL-Library.List_Lexorder"
begin

section \<open>Characters and integers of the C++ library\<close>

text \<open>
  The program is \<^verbatim>\<open>project_updated.cpp\<close>. A \<^verbatim>\<open>std::string\<close> is a \<^typ>\<open>string\<close>
  (a list of bytes). The library functions the program calls on text are modelled here as
  the C locale defines them: \<^verbatim>\<open>isspace\<close>, \<^verbatim>\<open>isdigit\<close>, \<^verbatim>\<open>toupper\<close>, the extraction
  \<^verbatim>\<open>istream >> int\<close> and \<^verbatim>\<open>istream >> char\<close> (both skip leading white space, the
  stream's default), \<^verbatim>\<open>std::stoi\<close>, \<^verbatim>\<open>std::to_string(int)\<close> and \<^verbatim>\<open>ostream << int\<close>.
  An \<^verbatim>\<open>int\<close> has 32 bits; its values are the integers from \<open>INT_MIN\<close> to \<open>INT_MAX\<close>.
\<close>

definition INT_MAX :: int where
  "INT_MAX = 2147483647"

definition INT_MIN :: int where
  "INT_MIN = - 2147483648"

definition isspace :: "char \<Rightarrow> bool" where
  "isspace c = (c \<in> set [CHR '' '', CHR 0x09, CHR 0x0A, CHR 0x0B, CHR 0x0C, CHR 0x0D])"

definition isdigit :: "char \<Rightarrow> bool" where
  "isdigit c = (c \<in> set ''0123456789'')"

definition digit_val :: "char \<Rightarrow> int" where
  "digit_val c = of_char c - 48"

definition digit_char :: "int \<Rightarrow> char" where
  "digit_char n = char_of (48 + n)"

definition dec_val :: "string \<Rightarrow> int" where
  "dec_val ds = foldl (\<lambda>acc c. acc * 10 + digit_val c) 0 ds"

text \<open>
  The text of an optionally signed decimal number at the head of \<open>s\<close>: its value and the
  text after its last digit; \<open>None\<close> when no digit stands there. This is the scan shared by
  \<^verbatim>\<open>num_get\<close> (behind \<^verbatim>\<open>>>\<close>) and \<^verbatim>\<open>strtol\<close> (behind \<^verbatim>\<open>stoi\<close>) in base 10.
\<close>

definition scan_sign :: "string \<Rightarrow> bool \<times> string" where
  "scan_sign s =
     (case s of
        [] \<Rightarrow> (False, s)
      | c # r \<Rightarrow> if c = CHR ''-'' then (True, r) else if c = CHR ''+'' then (False, r) else (False, s))"

definition scan_int :: "string \<Rightarrow> (int \<times> string) option" where
  "scan_int s =
     (let (neg, s1) = scan_sign s;
          ds = takeWhile isdigit s1
      in if ds = [] then None
         else Some (if neg then - dec_val ds else dec_val ds, dropWhile isdigit s1))"

text \<open>\<^verbatim>\<open>ss >> n\<close> for an \<^verbatim>\<open>int n\<close>: the stream fails when no number stands there or when
  the number does not fit an \<^verbatim>\<open>int\<close>.\<close>

definition extract_int :: "string \<Rightarrow> (int \<times> string) option" where
  "extract_int s =
     (case scan_int (dropWhile isspace s) of
        None \<Rightarrow> None
      | Some (v, r) \<Rightarrow> if INT_MIN \<le> v \<and> v \<le> INT_MAX then Some (v, r) else None)"

text \<open>\<^verbatim>\<open>ss >> c\<close> for a \<^verbatim>\<open>char c\<close>: the next character that is not white space.\<close>

definition extract_char :: "string \<Rightarrow> (char \<times> string) option" where
  "extract_char s = (case dropWhile isspace s of [] \<Rightarrow> None | c # r \<Rightarrow> Some (c, r))"

text \<open>\<^verbatim>\<open>toupper\<close> in the C locale.\<close>

definition toupper :: "char \<Rightarrow> char" where
  "toupper c = (if c \<in> set ''abcdefghijklmnopqrstuvwxyz'' then char_of (of_char c - (32::int)) else c)"

text \<open>
  \<^verbatim>\<open>std::to_string(int)\<close> and \<^verbatim>\<open>ostream << int\<close>: the decimal digits, after a minus sign
  when the number is negative.
\<close>

function show_nat :: "int \<Rightarrow> string" where
  "show_nat n = (if n < 10 then [digit_char n] else show_nat (n div 10) @ [digit_char (n mod 10)])"
  by pat_completeness auto
termination
  by (relation "measure nat") auto

declare show_nat.simps [simp del]

definition show_int :: "int \<Rightarrow> string" where
  "show_int i = (if i < 0 then CHR ''-'' # show_nat (- i) else show_nat i)"

text \<open>
  The exceptions the program can meet, and the undefined behaviour of a signed overflow,
  as values.
\<close>

datatype error = Invalid_argument | Out_of_range | Signed_overflow

text \<open>
  \<^verbatim>\<open>std::stoi(str)\<close> is \<^verbatim>\<open>strtol(str.c_str(), &end, 10)\<close>: the C string stops at the first
  zero byte; white space is skipped; \<^verbatim>\<open>invalid_argument\<close> is thrown when no number stands
  there, \<^verbatim>\<open>out_of_range\<close> when the number does not fit an \<^verbatim>\<open>int\<close>; the text after the
  number is ignored.
\<close>

definition c_str :: "string \<Rightarrow> string" where
  "c_str s = takeWhile (\<lambda>c. c \<noteq> CHR 0x00) s"

definition stoi :: "string \<Rightarrow> error + int" where
  "stoi str =
     (case scan_int (dropWhile isspace (c_str str)) of
        None \<Rightarrow> Inl Invalid_argument
      | Some (v, r) \<Rightarrow> if INT_MIN \<le> v \<and> v \<le> INT_MAX then Inr v else Inl Out_of_range)"

section \<open>The type float\<close>

text \<open>
  A \<^verbatim>\<open>float\<close> is an IEEE 754 binary32 number and a \<^verbatim>\<open>double\<close> a binary64 number. Both
  are modelled by their values: a rational number, an infinity or a NaN. Every operation
  computes the exact result and rounds it to the nearest value of its format, ties to
  even, as the hardware does in its default rounding mode; expressions of type
  \<^verbatim>\<open>float\<close> are evaluated in \<^verbatim>\<open>float\<close> (\<^verbatim>\<open>FLT_EVAL_METHOD\<close> 0). The sign of a zero and
  the sign and payload of a NaN are not modelled: the program divides only by a number
  it has found greater than zero, and nothing else in it tells the two zeros apart but
  the sign they are printed with.
\<close>

datatype float = Fin rat | PInf | NInf | NaN

text \<open>\<open>ipow b e\<close> is \<open>b\<close> to the power \<open>e\<close>, for a negative \<open>e\<close> too.\<close>

definition ipow :: "int \<Rightarrow> int \<Rightarrow> rat" where
  "ipow b e = (if 0 \<le> e then of_int b ^ nat e else 1 / of_int b ^ nat (- e))"

definition pow2 :: "int \<Rightarrow> rat" where
  "pow2 e = ipow 2 e"

definition pow10 :: "int \<Rightarrow> rat" where
  "pow10 e = ipow 10 e"

text \<open>
  \<open>ndigits b n\<close> is the number of digits of \<open>n\<close> in base \<open>b\<close>. For \<open>0 < q\<close>, \<open>ilog b q\<close> is
  the exponent \<open>e\<close> with \<open>b ^ e \<le> q < b ^ (e + 1)\<close>: the difference of the numbers of
  digits of the numerator and the denominator, or one less.
\<close>

function ndigits :: "int \<Rightarrow> int \<Rightarrow> int" where
  "ndigits b n = (if b < 2 \<or> n < b then 1 else ndigits b (n div b) + 1)"
  by pat_completeness auto
termination
  by (relation "measure (\<lambda>(b, n). nat n)") (auto intro: int_div_less_self)

declare ndigits.simps [simp del]

definition ilog :: "int \<Rightarrow> rat \<Rightarrow> int" where
  "ilog b q =
     (let (n, d) = quotient_of q;
          e0 = ndigits b n - ndigits b d
      in if ipow b e0 \<le> q then e0 else e0 - 1)"

definition round_half_even :: "rat \<Rightarrow> int" where
  "round_half_even x =
     (let f = \<lfloor>x\<rfloor>; r = x - of_int f
      in if r < 1 / 2 then f else if 1 / 2 < r then f + 1 else if even f then f else f + 1)"

text \<open>
  Rounding to a binary format of precision \<open>p\<close> whose normal numbers have the exponents
  \<open>emin\<close> to \<open>emax\<close>: below \<open>2 ^ emin\<close> the spacing of the subnormal numbers is kept, and a
  result of \<open>2 ^ (emax + 1)\<close> or more, whose exponent is above \<open>emax\<close>, is an infinity.
\<close>

definition round_bin :: "nat \<Rightarrow> int \<Rightarrow> int \<Rightarrow> rat \<Rightarrow> float" where
  "round_bin p emin emax q =
     (if q = 0 then Fin 0
      else
        let a = \<bar>q\<bar>;
            e = max (ilog 2 a) emin;
            ulp = pow2 (e - int p + 1);
            m = of_int (round_half_even (a / ulp)) * ulp
        in if 0 < m \<and> emax < ilog 2 m then (if 0 < q then PInf else NInf)
           else Fin (if 0 < q then m else - m))"

definition to_float :: "rat \<Rightarrow> float" where
  "to_float q = round_bin 24 (- 126) 127 q"

definition to_double :: "rat \<Rightarrow> float" where
  "to_double q = round_bin 53 (- 1022) 1023 q"

fun fneg :: "float \<Rightarrow> float" where
  "fneg (Fin a) = Fin (- a)"
| "fneg PInf = NInf"
| "fneg NInf = PInf"
| "fneg NaN = NaN"

text \<open>\<^verbatim>\<open>a + b\<close>, \<^verbatim>\<open>a - b\<close> and \<^verbatim>\<open>a / b\<close> on \<^verbatim>\<open>float\<close>.\<close>

fun fadd :: "float \<Rightarrow> float \<Rightarrow> float" where
  "fadd NaN b = NaN"
| "fadd a NaN = NaN"
| "fadd PInf NInf = NaN"
| "fadd NInf PInf = NaN"
| "fadd PInf b = PInf"
| "fadd NInf b = NInf"
| "fadd a PInf = PInf"
| "fadd a NInf = NInf"
| "fadd (Fin a) (Fin b) = to_float (a + b)"

definition fsub :: "float \<Rightarrow> float \<Rightarrow> float" where
  "fsub a b = fadd a (fneg b)"

fun fdiv :: "float \<Rightarrow> float \<Rightarrow> float" where
  "fdiv NaN b = NaN"
| "fdiv a NaN = NaN"
| "fdiv (Fin a) (Fin b) =
     (if b = 0 then (if a = 0 then NaN else if 0 < a then PInf else NInf)
      else to_float (a / b))"
| "fdiv (Fin a) b = Fin 0"
| "fdiv PInf (Fin b) = (if 0 \<le> b then PInf else NInf)"
| "fdiv NInf (Fin b) = (if 0 \<le> b then NInf else PInf)"
| "fdiv a b = NaN"

text \<open>\<^verbatim>\<open>a < b\<close> and \<^verbatim>\<open>a <= b\<close>, on \<^verbatim>\<open>float\<close> and on \<^verbatim>\<open>double\<close>: false when an operand is a NaN.\<close>

fun flt :: "float \<Rightarrow> float \<Rightarrow> bool" where
  "flt NaN b = False"
| "flt a NaN = False"
| "flt (Fin a) (Fin b) = (a < b)"
| "flt a NInf = False"
| "flt PInf b = False"
| "flt a b = True"

fun fle :: "float \<Rightarrow> float \<Rightarrow> bool" where
  "fle NaN b = False"
| "fle a NaN = False"
| "fle (Fin a) (Fin b) = (a \<le> b)"
| "fle NInf b = True"
| "fle a PInf = True"
| "fle a b = False"

section \<open>Reading and printing a float\<close>

text \<open>
  \<^verbatim>\<open>std::stof(str)\<close> is \<^verbatim>\<open>strtof(str.c_str(), &end)\<close>: after white space and a sign it
  reads \<^verbatim>\<open>inf\<close> or \<^verbatim>\<open>nan\<close> (in either case of the letters), a hexadecimal number after
  \<^verbatim>\<open>0x\<close>, or a decimal number, with a fraction and an exponent if they are there, and
  rounds the number to the nearest \<^verbatim>\<open>float\<close>. It throws \<^verbatim>\<open>invalid_argument\<close> when no number
  stands there and \<^verbatim>\<open>out_of_range\<close> when \<^verbatim>\<open>strtof\<close> reports \<^verbatim>\<open>ERANGE\<close>: the number is too
  large for a \<^verbatim>\<open>float\<close>, or it is not zero, lies below the normal numbers and is not
  a \<^verbatim>\<open>float\<close> itself.
\<close>

definition tolower :: "char \<Rightarrow> char" where
  "tolower c = (if c \<in> set ''ABCDEFGHIJKLMNOPQRSTUVWXYZ'' then char_of (of_char c + (32::int)) else c)"

definition has_prefix_ci :: "string \<Rightarrow> string \<Rightarrow> bool" where
  "has_prefix_ci p s = (map tolower (take (length p) s) = p)"

definition isxdigit :: "char \<Rightarrow> bool" where
  "isxdigit c = (c \<in> set ''0123456789abcdefABCDEF'')"

definition xdigit_val :: "char \<Rightarrow> int" where
  "xdigit_val c = (if isdigit c then of_char c - 48 else of_char (tolower c) - 87)"

definition hex_val :: "string \<Rightarrow> int" where
  "hex_val ds = foldl (\<lambda>acc c. acc * 16 + xdigit_val c) 0 ds"

text \<open>The exponent part after the mantissa: its mark, an optional sign and at least one
  digit; anything else is no exponent.\<close>

definition scan_exponent :: "string \<Rightarrow> string \<Rightarrow> int" where
  "scan_exponent marks s =
     (case s of
        [] \<Rightarrow> 0
      | c # r \<Rightarrow> if c \<in> set marks then (case scan_int r of None \<Rightarrow> 0 | Some (v, r') \<Rightarrow> v) else 0)"

text \<open>The digits before and after the point: \<open>(digits before, digits after, rest)\<close>.\<close>

definition scan_mantissa :: "(char \<Rightarrow> bool) \<Rightarrow> string \<Rightarrow> string \<times> string \<times> string" where
  "scan_mantissa isd s =
     (let ip = takeWhile isd s; r1 = dropWhile isd s
      in case r1 of
           [] \<Rightarrow> (ip, [], r1)
         | c # r \<Rightarrow> if c = CHR ''.'' then (ip, takeWhile isd r, dropWhile isd r) else (ip, [], r1))"

definition scan_decimal :: "string \<Rightarrow> rat option" where
  "scan_decimal s =
     (let (ip, fp, r) = scan_mantissa isdigit s
      in if ip = [] \<and> fp = [] then None
         else Some (of_int (dec_val (ip @ fp)) * pow10 (scan_exponent ''eE'' r - int (length fp))))"

definition scan_hex :: "string \<Rightarrow> rat option" where
  "scan_hex s =
     (let (ip, fp, r) = scan_mantissa isxdigit s
      in if ip = [] \<and> fp = [] then None
         else Some (of_int (hex_val (ip @ fp)) * pow2 (scan_exponent ''pP'' r - 4 * int (length fp))))"

definition scan_number :: "string \<Rightarrow> rat option" where
  "scan_number s =
     (if has_prefix_ci ''0x'' s
      then (case scan_hex (drop 2 s) of None \<Rightarrow> scan_decimal s | Some q \<Rightarrow> Some q)
      else scan_decimal s)"

text \<open>\<open>round_normal p a\<close>: \<open>0 < a\<close> rounded to \<open>p\<close> bits with no bound on the exponent.\<close>

definition round_normal :: "nat \<Rightarrow> rat \<Rightarrow> rat" where
  "round_normal p a =
     (let ulp = pow2 (ilog 2 a - int p + 1) in of_int (round_half_even (a / ulp)) * ulp)"

definition float_erange :: "rat \<Rightarrow> bool" where
  "float_erange q =
     (q \<noteq> 0 \<and>
      (to_float \<bar>q\<bar> = PInf \<or> (round_normal 24 \<bar>q\<bar> < pow2 (- 126) \<and> to_float q \<noteq> Fin q)))"

definition stof :: "string \<Rightarrow> error + float" where
  "stof str =
     (let (neg, s) = scan_sign (dropWhile isspace (c_str str))
      in if has_prefix_ci ''inf'' s then Inr (if neg then NInf else PInf)
         else if has_prefix_ci ''nan'' s then Inr NaN
         else
           (case scan_number s of
              None \<Rightarrow> Inl Invalid_argument
            | Some q \<Rightarrow>
                if float_erange q then Inl Out_of_range
                else Inr (to_float (if neg then - q else q))))"

text \<open>
  \<^verbatim>\<open>ostream << f\<close> for a \<^verbatim>\<open>float f\<close>, with the stream's default flags and precision, is
  \<^verbatim>\<open>printf("%.6g", (double) f)\<close>: the number rounded to six significant decimal digits,
  in the style \<^verbatim>\<open>e\<close> when its decimal exponent is below \<open>-4\<close> or at least \<open>6\<close> and in the
  style \<^verbatim>\<open>f\<close> otherwise, with the zeros at the end of the fraction removed, and the point
  too when no fraction is left.
\<close>

definition strip_zeros :: "string \<Rightarrow> string" where
  "strip_zeros ds = rev (dropWhile (\<lambda>c. c = CHR ''0'') (rev ds))"

definition with_fraction :: "string \<Rightarrow> string \<Rightarrow> string" where
  "with_fraction ip fp = (let f = strip_zeros fp in if f = [] then ip else ip @ CHR ''.'' # f)"

definition show_exponent :: "int \<Rightarrow> string" where
  "show_exponent x =
     (if x < 0 then ''-'' else ''+'') @ (let ex = show_nat \<bar>x\<bar> in if length ex < 2 then CHR ''0'' # ex else ex)"

definition fmt_g :: "rat \<Rightarrow> string" where
  "fmt_g a =
     (let x0 = ilog 10 a;
          d0 = round_half_even (a / pow10 (x0 - 5));
          x = (if d0 = 1000000 then x0 + 1 else x0);
          ds = show_nat (if d0 = 1000000 then 100000 else d0)
      in if x < - 4 \<or> 6 \<le> x then with_fraction (take 1 ds) (drop 1 ds) @ ''e'' @ show_exponent x
         else if 0 \<le> x then with_fraction (take (nat x + 1) ds) (drop (nat x + 1) ds)
         else with_fraction ''0'' (replicate (nat (- x - 1)) (CHR ''0'') @ ds))"

fun show_float :: "float \<Rightarrow> string" where
  "show_float (Fin q) = (if q = 0 then ''0'' else if q < 0 then CHR ''-'' # fmt_g (- q) else fmt_g q)"
| "show_float PInf = ''inf''"
| "show_float NInf = ''-inf''"
| "show_float NaN = ''nan''"

section \<open>The date parser\<close>

text \<open>
  \<^verbatim>\<open>bool parse_date(const string& date_str, int& year, int& month, int& day)\<close>:
  the three output parameters are the result, \<open>None\<close> is the return value \<^verbatim>\<open>false\<close>.
  The source's condition is a chain of \<^verbatim>\<open>&&\<close>, evaluated left to right and cut short at
  the first operand that is false.
\<close>

definition parse_date :: "string \<Rightarrow> (int \<times> int \<times> int) option" where
  "parse_date date_str =
     (case extract_int date_str of
        None \<Rightarrow> None
      | Some (year, s1) \<Rightarrow>
          (case extract_char s1 of
             None \<Rightarrow> None
           | Some (dash1, s2) \<Rightarrow>
               if dash1 \<noteq> CHR ''-'' then None
               else
                 (case extract_int s2 of
                    None \<Rightarrow> None
                  | Some (month, s3) \<Rightarrow>
                      (case extract_char s3 of
                         None \<Rightarrow> None
                       | Some (dash2, s4) \<Rightarrow>
                           if dash2 \<noteq> CHR ''-'' then None
                           else
                             (case extract_int s4 of
                                None \<Rightarrow> None
                              | Some (day, s5) \<Rightarrow> Some (year, month, day))))))"

section \<open>The data model\<close>

text \<open>
  \<^verbatim>\<open>struct Transaction\<close> and \<^verbatim>\<open>struct UserProfile\<close>. A \<^verbatim>\<open>std::map<string, float>\<close> is the
  list of its entries in the order the map iterates them: ascending by key, each key once.
  \<^verbatim>\<open>std::string\<close> compares byte by byte, as the order on \<^typ>\<open>string\<close> does.
\<close>

record transaction =
  date :: string
  category :: string
  description :: string
  amount :: float
  type :: char
  id' :: int

type_synonym float_map = "(string \<times> float) list"

record user_profile =
  username :: string
  password :: string
  transactions :: "transaction list"
  budgetPerCategory :: float_map
  next_transaction_id :: int

text \<open>\<^verbatim>\<open>UserProfile()\<close>, and \<^verbatim>\<open>UserProfile{username_input, password_input}\<close> of a registration.\<close>

definition new_profile :: "string \<Rightarrow> string \<Rightarrow> user_profile" where
  "new_profile name pw =
     \<lparr>username = name, password = pw, transactions = [], budgetPerCategory = [],
      next_transaction_id = 1\<rparr>"

text \<open>\<^verbatim>\<open>m[k] = v\<close>, the value \<^verbatim>\<open>m[k]\<close> (a key that is absent reads as \<^verbatim>\<open>0.0f\<close>) and
  \<^verbatim>\<open>m[k] += a\<close>.\<close>

fun map_put :: "string \<Rightarrow> float \<Rightarrow> float_map \<Rightarrow> float_map" where
  "map_put k v [] = [(k, v)]"
| "map_put k v ((k', v') # m) =
     (if k < k' then (k, v) # (k', v') # m
      else if k = k' then (k, v) # m
      else (k', v') # map_put k v m)"

definition map_at :: "float_map \<Rightarrow> string \<Rightarrow> float" where
  "map_at m k = (case map_of m k of None \<Rightarrow> Fin 0 | Some v \<Rightarrow> v)"

definition map_incr :: "string \<Rightarrow> float \<Rightarrow> float_map \<Rightarrow> float_map" where
  "map_incr k a m = map_put k (fadd (map_at m k) a) m"

section \<open>The transaction store\<close>

text \<open>
  The functions of the user interface take the texts the user enters as arguments, in the
  order the program asks for them; \<^verbatim>\<open>get_text_input\<close> returns the empty text when the
  user cancels. A \<^verbatim>\<open>catch (...)\<close> is the \<open>Inl\<close> branch of the call it guards.
  \<^verbatim>\<open>user.next_transaction_id++\<close> overflows at \<open>INT_MAX\<close>, which is undefined behaviour.
\<close>

definition is_type_char :: "string \<Rightarrow> bool" where
  "is_type_char type_str =
     (case type_str of
        [] \<Rightarrow> False
      | c # r \<Rightarrow> toupper c = CHR ''I'' \<or> toupper c = CHR ''E'')"

definition add_transaction_ui ::
  "user_profile \<Rightarrow> string \<Rightarrow> string \<Rightarrow> string \<Rightarrow> string \<Rightarrow> string \<Rightarrow> error + user_profile" where
  "add_transaction_ui user date_str category_str description_str amount_str type_str =
     (if date_str = [] then Inr user
      else if category_str = [] then Inr user
      else if description_str = [] then Inr user
      else if amount_str = [] then Inr user
      else
        (case stof amount_str of
           Inl e \<Rightarrow> Inr user
         | Inr amount_v \<Rightarrow>
             if \<not> is_type_char type_str then Inr user
             else if next_transaction_id user = INT_MAX then Inl Signed_overflow
             else
               Inr (user
                 \<lparr>transactions := transactions user @
                    [\<lparr>date = date_str, category = category_str, description = description_str,
                      amount = amount_v, type = toupper (hd type_str),
                      id' = next_transaction_id user\<rparr>],
                  next_transaction_id := next_transaction_id user + 1\<rparr>)))"

text \<open>The button the user clicks once the transaction is found; \<open>Edit\<close> carries the five
  texts entered. Closing the window instead leaves the loop as \<open>Cancel\<close> does.\<close>

datatype action = Edit string string string string string | Delete | Cancel

definition edit_transaction ::
  "transaction \<Rightarrow> string \<Rightarrow> string \<Rightarrow> string \<Rightarrow> string \<Rightarrow> string \<Rightarrow> transaction" where
  "edit_transaction t new_date new_category new_description new_amount_str new_type_str =
     (let t1 = (if new_date \<noteq> [] then t\<lparr>date := new_date\<rparr> else t);
          t2 = (if new_category \<noteq> [] then t1\<lparr>category := new_category\<rparr> else t1);
          t3 = (if new_description \<noteq> [] then t2\<lparr>description := new_description\<rparr> else t2);
          t4 = (if new_amount_str \<noteq> []
                then (case stof new_amount_str of Inl e \<Rightarrow> t3 | Inr a \<Rightarrow> t3\<lparr>amount := a\<rparr>)
                else t3)
      in if is_type_char new_type_str then t4\<lparr>type := toupper (hd new_type_str)\<rparr> else t4)"

text \<open>\<^verbatim>\<open>find_if\<close>: the position of the first transaction with the id, if there is one.\<close>

fun find_id :: "int \<Rightarrow> transaction list \<Rightarrow> nat option" where
  "find_id i [] = None"
| "find_id i (t # ts) =
     (if id' t = i then Some 0 else (case find_id i ts of None \<Rightarrow> None | Some n \<Rightarrow> Some (Suc n)))"

definition edit_delete_transaction_ui :: "user_profile \<Rightarrow> string \<Rightarrow> action \<Rightarrow> user_profile" where
  "edit_delete_transaction_ui user id_str act =
     (if id_str = [] then user
      else
        (case stoi id_str of
           Inl e \<Rightarrow> user
         | Inr id_to_find \<Rightarrow>
             (case find_id id_to_find (transactions user) of
                None \<Rightarrow> user
              | Some it \<Rightarrow>
                  (case act of
                     Edit new_date new_category new_description new_amount_str new_type_str \<Rightarrow>
                       user\<lparr>transactions := (transactions user)
                         [it := edit_transaction (transactions user ! it) new_date new_category
                                  new_description new_amount_str new_type_str]\<rparr>
                   | Delete \<Rightarrow>
                       user\<lparr>transactions :=
                         take it (transactions user) @ drop (Suc it) (transactions user)\<rparr>
                   | Cancel \<Rightarrow> user))))"

text \<open>
  The menu of \<^verbatim>\<open>main\<close>: the entries ``Add Transaction'' and ``Edit/Delete Transaction'',
  with what the user enters, applied to the profile that is logged in; \<open>ids_assigned\<close> is
  the list of the ids that the additions of a session gave to new transactions.
\<close>

datatype ui_op = Add_Transaction string string string string string | Edit_Delete string action

fun apply_op :: "user_profile \<Rightarrow> ui_op \<Rightarrow> error + user_profile" where
  "apply_op user (Add_Transaction date_str category_str description_str amount_str type_str) =
     add_transaction_ui user date_str category_str description_str amount_str type_str"
| "apply_op user (Edit_Delete id_str act) = Inr (edit_delete_transaction_ui user id_str act)"

fun run_ops :: "user_profile \<Rightarrow> ui_op list \<Rightarrow> error + user_profile" where
  "run_ops user [] = Inr user"
| "run_ops user (a # as) =
     (case apply_op user a of Inl e \<Rightarrow> Inl e | Inr user' \<Rightarrow> run_ops user' as)"

fun is_add :: "ui_op \<Rightarrow> bool" where
  "is_add (Add_Transaction date_str category_str description_str amount_str type_str) = True"
| "is_add (Edit_Delete id_str act) = False"

definition new_ids :: "user_profile \<Rightarrow> ui_op \<Rightarrow> user_profile \<Rightarrow> int list" where
  "new_ids user a user' =
     (if is_add a \<and> length (transactions user) < length (transactions user')
      then [id' (last (transactions user'))] else [])"

fun ids_assigned :: "user_profile \<Rightarrow> ui_op list \<Rightarrow> int list" where
  "ids_assigned user [] = []"
| "ids_assigned user (a # as) =
     (case apply_op user a of
        Inl e \<Rightarrow> []
      | Inr user' \<Rightarrow> new_ids user a user' @ ids_assigned user' as)"

text \<open>
  What holds of a profile and the ids assigned so far in a session: the ids assigned
  increase, each is at least 1 and below \<^verbatim>\<open>next_transaction_id\<close>, and the ids in the store
  are among them, in increasing order.
\<close>

definition ids_inv :: "user_profile \<Rightarrow> int list \<Rightarrow> bool" where
  "ids_inv user given =
     (sorted_wrt (<) given \<and> 1 \<le> next_transaction_id user \<and>
      (\<forall>i\<in>set given. 1 \<le> i \<and> i < next_transaction_id user) \<and>
      set (map id' (transactions user)) \<subseteq> set given \<and>
      sorted_wrt (<) (map id' (transactions user)))"

section \<open>The reports\<close>

text \<open>\<^verbatim>\<open>calculateExpensesByCategory\<close>.\<close>

definition calculateExpensesByCategory :: "transaction list \<Rightarrow> float_map" where
  "calculateExpensesByCategory ts =
     foldl (\<lambda>expenses t. if type t = CHR ''E'' then map_incr (category t) (amount t) expenses else expenses)
       [] ts"

text \<open>\<^verbatim>\<open>draw_summary\<close>: the three amounts it prints, \<open>(totalIncome, totalExpense, net)\<close>.\<close>

definition summary_step :: "float \<times> float \<Rightarrow> transaction \<Rightarrow> float \<times> float" where
  "summary_step acc t =
     (case acc of
        (totalIncome, totalExpense) \<Rightarrow>
          if type t = CHR ''I'' then (fadd totalIncome (amount t), totalExpense)
          else if type t = CHR ''E'' then (totalIncome, fadd totalExpense (amount t))
          else (totalIncome, totalExpense))"

definition draw_summary :: "transaction list \<Rightarrow> float \<times> float \<times> float" where
  "draw_summary ts =
     (case foldl summary_step (Fin 0, Fin 0) ts of
        (totalIncome, totalExpense) \<Rightarrow> (totalIncome, totalExpense, fsub totalIncome totalExpense))"

text \<open>
  \<^verbatim>\<open>drawBudgetReport\<close>: one line for each entry of the budget map, with the category, the
  budget, the amount spent and the colour of the line, and the flag
  \<^verbatim>\<open>budget_exceeded_any_category\<close>. The literal \<^verbatim>\<open>0.9\<close> is a \<^verbatim>\<open>double\<close>; the quotient of the
  two \<^verbatim>\<open>float\<close>s is a \<^verbatim>\<open>float\<close>, converted to \<^verbatim>\<open>double\<close> for the comparison.
\<close>

datatype color = COLOR_BLACK | COLOR_RED | COLOR_ORANGE

definition display_color :: "float \<Rightarrow> float \<Rightarrow> color" where
  "display_color spent budget =
     (if flt budget spent then COLOR_RED
      else if flt (Fin 0) budget \<and> fle (to_double (9 / 10)) (fdiv spent budget) then COLOR_ORANGE
      else COLOR_BLACK)"

definition drawBudgetReport :: "user_profile \<Rightarrow> (string \<times> float \<times> float \<times> color) list \<times> bool" where
  "drawBudgetReport user =
     (let expenses = calculateExpensesByCategory (transactions user);
          rows = map (\<lambda>(cat, budget). (cat, budget, map_at expenses cat,
                        display_color (map_at expenses cat) budget))
                   (budgetPerCategory user)
      in (rows, list_ex (\<lambda>(cat, budget, spent, c). c = COLOR_RED) rows))"

text \<open>
  \<^verbatim>\<open>draw_time_series_report\<close>: the four maps the loop fills, and the lines drawn under
  ``Monthly Summary'' and ``Yearly Summary'': period, income, expense and net. The lines
  are drawn for the entries of the income maps; \<^verbatim>\<open>std::sort\<close> orders them by their keys,
  which are all different.
\<close>

definition month_key :: "int \<Rightarrow> int \<Rightarrow> string" where
  "month_key year month = show_int year @ ''-'' @ (if month < 10 then ''0'' else []) @ show_int month"

record series =
  monthly_income :: float_map
  monthly_expense :: float_map
  yearly_income :: float_map
  yearly_expense :: float_map

definition series_step :: "series \<Rightarrow> transaction \<Rightarrow> series" where
  "series_step s t =
     (case parse_date (date t) of
        None \<Rightarrow> s
      | Some (year, month, day) \<Rightarrow>
          if type t = CHR ''I''
          then s\<lparr>monthly_income := map_incr (month_key year month) (amount t) (monthly_income s),
                 yearly_income := map_incr (show_int year) (amount t) (yearly_income s)\<rparr>
          else s\<lparr>monthly_expense := map_incr (month_key year month) (amount t) (monthly_expense s),
                 yearly_expense := map_incr (show_int year) (amount t) (yearly_expense s)\<rparr>)"

definition time_series :: "transaction list \<Rightarrow> series" where
  "time_series ts =
     foldl series_step
       \<lparr>monthly_income = [], monthly_expense = [], yearly_income = [], yearly_expense = []\<rparr> ts"

definition summary_lines :: "float_map \<Rightarrow> float_map \<Rightarrow> (string \<times> float \<times> float \<times> float) list" where
  "summary_lines incomes expenses =
     map (\<lambda>(period, income). (period, income, map_at expenses period, fsub income (map_at expenses period)))
       (sort_key fst incomes)"

definition draw_time_series_report ::
  "user_profile \<Rightarrow> (string \<times> float \<times> float \<times> float) list \<times> (string \<times> float \<times> float \<times> float) list" where
  "draw_time_series_report user =
     (let s = time_series (transactions user)
      in (summary_lines (monthly_income s) (monthly_expense s),
          summary_lines (yearly_income s) (yearly_expense s)))"

section \<open>The file\<close>

text \<open>
  \<^verbatim>\<open>while (getline(stream, token, d)) parts.push_back(token);\<close> A \<^verbatim>\<open>getline\<close> takes the text
  up to the next delimiter, or to the end of the stream; it fails, and the loop ends, when
  the stream is at its end before a character is read. So the text after the last
  delimiter is a token only when it is not empty.
\<close>

function getline_loop :: "char \<Rightarrow> string \<Rightarrow> string list" where
  "getline_loop d [] = []"
| "getline_loop d (c # s) =
     takeWhile (\<lambda>x. x \<noteq> d) (c # s) # getline_loop d (drop 1 (dropWhile (\<lambda>x. x \<noteq> d) (c # s)))"
  by pat_completeness auto
termination
proof (relation "measure (\<lambda>(d, s). length s)")
  show "wf (measure (\<lambda>(d, s). length s))"
    by simp
next
  fix d c :: char and s :: string
  have "length (dropWhile (\<lambda>x. x \<noteq> d) s) \<le> length s"
    by (rule length_dropWhile_le)
  then show "((d, drop 1 (dropWhile (\<lambda>x. x \<noteq> d) (c # s))), (d, c # s)) \<in> measure (\<lambda>(d, s). length s)"
    by auto
qed

text \<open>\<^verbatim>\<open>saveToFile\<close>: the text written to \<^verbatim>\<open>users.txt\<close>.\<close>

definition save_transaction :: "transaction \<Rightarrow> string" where
  "save_transaction t =
     ''TRANS|'' @ show_int (id' t) @ ''|'' @ date t @ ''|'' @ category t @ ''|'' @ description t @ ''|'' @
     show_float (amount t) @ ''|'' @ [type t] @ [CHR 0x0A]"

definition save_budget :: "string \<times> float \<Rightarrow> string" where
  "save_budget e = (case e of (cat, val) \<Rightarrow> cat @ '':'' @ show_float val @ '','')"

definition save_user :: "user_profile \<Rightarrow> string" where
  "save_user user =
     ''USER|'' @ username user @ ''|'' @ password user @ [CHR 0x0A] @
     ''NEXT_ID|'' @ show_int (next_transaction_id user) @ [CHR 0x0A] @
     ''BUDGETS|'' @ concat (map save_budget (budgetPerCategory user)) @ [CHR 0x0A] @
     concat (map save_transaction (transactions user)) @
     ''ENDUSER'' @ [CHR 0x0A]"

definition saveToFile :: "user_profile list \<Rightarrow> string" where
  "saveToFile users = concat (map save_user users)"

text \<open>
  \<^verbatim>\<open>loadFromFile\<close>, on the text of the file. \<^verbatim>\<open>currentUser\<close> points into the vector
  \<^verbatim>\<open>users\<close>: it is the index of the profile it points to, or \<open>None\<close> for \<^verbatim>\<open>nullptr\<close>.
  No call of \<^verbatim>\<open>stoi\<close> or \<^verbatim>\<open>stof\<close> in this function stands in a \<^verbatim>\<open>try\<close> block: what they
  throw leaves the function, which is the result \<open>Inl\<close>.
\<close>

record load_state =
  users :: "user_profile list"
  currentUser :: "nat option"

definition starts_with :: "string \<Rightarrow> string \<Rightarrow> bool" where
  "starts_with p line = (take (length p) line = p)"

text \<open>The text a \<^verbatim>\<open>getline\<close> of the \<^verbatim>\<open>USER\<close> line leaves in its string: a \<^verbatim>\<open>getline\<close> that
  fails leaves it empty.\<close>

definition field :: "string list \<Rightarrow> nat \<Rightarrow> string" where
  "field parts i = (if i < length parts then parts ! i else [])"

definition upd_current :: "(user_profile \<Rightarrow> user_profile) \<Rightarrow> load_state \<Rightarrow> load_state" where
  "upd_current f st =
     (case currentUser st of
        None \<Rightarrow> st
      | Some i \<Rightarrow> st\<lparr>users := (users st)[i := f (users st ! i)]\<rparr>)"

fun load_budgets :: "string list \<Rightarrow> float_map \<Rightarrow> error + float_map" where
  "load_budgets [] m = Inr m"
| "load_budgets (part # ps) m =
     (if part = [] then load_budgets ps m
      else if CHR '':'' \<notin> set part then load_budgets ps m
      else
        (case stof (drop 1 (dropWhile (\<lambda>x. x \<noteq> CHR '':'') part)) of
           Inl e \<Rightarrow> Inl e
         | Inr val \<Rightarrow> load_budgets ps (map_put (takeWhile (\<lambda>x. x \<noteq> CHR '':'') part) val m)))"

text \<open>\<^verbatim>\<open>parts[6][0]\<close> of an empty \<^verbatim>\<open>parts[6]\<close> is the zero byte that ends the string.\<close>

definition first_char :: "string \<Rightarrow> char" where
  "first_char s = (case s of [] \<Rightarrow> CHR 0x00 | c # r \<Rightarrow> c)"

definition load_transaction :: "string list \<Rightarrow> error + transaction option" where
  "load_transaction parts =
     (if length parts = 7
      then
        (case stoi (parts ! 1) of
           Inl e \<Rightarrow> Inl e
         | Inr i \<Rightarrow>
             (case stof (parts ! 5) of
                Inl e \<Rightarrow> Inl e
              | Inr a \<Rightarrow>
                  Inr (Some \<lparr>date = parts ! 2, category = parts ! 3, description = parts ! 4,
                             amount = a, type = first_char (parts ! 6), id' = i\<rparr>)))
      else Inr None)"

definition load_line :: "load_state \<Rightarrow> string \<Rightarrow> error + load_state" where
  "load_line st line =
     (if starts_with ''USER|'' line
      then
        (let parts = getline_loop (CHR ''|'') line
         in Inr \<lparr>users = users st @ [new_profile (field parts 1) (field parts 2)],
                 currentUser = Some (length (users st))\<rparr>)
      else if starts_with ''NEXT_ID|'' line \<and> currentUser st \<noteq> None
      then
        (case stoi (drop 8 line) of
           Inl e \<Rightarrow> Inl e
         | Inr n \<Rightarrow> Inr (upd_current (\<lambda>u. u\<lparr>next_transaction_id := n\<rparr>) st))
      else if starts_with ''BUDGETS|'' line \<and> currentUser st \<noteq> None
      then
        (case load_budgets (getline_loop (CHR '','') (drop 8 line))
                (budgetPerCategory (users st ! the (currentUser st))) of
           Inl e \<Rightarrow> Inl e
         | Inr m \<Rightarrow> Inr (upd_current (\<lambda>u. u\<lparr>budgetPerCategory := m\<rparr>) st))
      else if starts_with ''TRANS|'' line \<and> currentUser st \<noteq> None
      then
        (case load_transaction (getline_loop (CHR ''|'') line) of
           Inl e \<Rightarrow> Inl e
         | Inr None \<Rightarrow> Inr st
         | Inr (Some t) \<Rightarrow> Inr (upd_current (\<lambda>u. u\<lparr>transactions := transactions u @ [t]\<rparr>) st))
      else if line = ''ENDUSER'' then Inr (st\<lparr>currentUser := None\<rparr>)
      else Inr st)"

fun load_lines :: "load_state \<Rightarrow> string list \<Rightarrow> error + load_state" where
  "load_lines st [] = Inr st"
| "load_lines st (line # ls) =
     (case load_line st line of Inl e \<Rightarrow> Inl e | Inr st' \<Rightarrow> load_lines st' ls)"

definition loadFromFile :: "string \<Rightarrow> error + user_profile list" where
  "loadFromFile text =
     (case load_lines \<lparr>users = [], currentUser = None\<rparr> (getline_loop (CHR 0x0A) text) of
        Inl e \<Rightarrow> Inl e
      | Inr st \<Rightarrow> Inr (users st))"

section \<open>The date format of the specification\<close>

text \<open>
  The specification's \<open><int>-<int>-<int>\<close>, following its words and not the code.
  An \<open><int>\<close> is an optional sign and one or more decimal digits. \<open>strict_date_text\<close> is a
  text that is of this form as a whole. \<open>date_text s y m d\<close> is the form that the amended
  claim C7 describes: the three numbers \<open>y\<close>, \<open>m\<close> and \<open>d\<close>, each fitting an \<^verbatim>\<open>int\<close>, with
  white space allowed before each number and each dash, and any text after the day that
  does not begin with a digit.
\<close>

definition strip_sign :: "string \<Rightarrow> string" where
  "strip_sign t = (if take 1 t = ''-'' \<or> take 1 t = ''+'' then drop 1 t else t)"

definition is_int_text :: "string \<Rightarrow> bool" where
  "is_int_text t = (strip_sign t \<noteq> [] \<and> list_all isdigit (strip_sign t))"

definition int_of_text :: "string \<Rightarrow> int" where
  "int_of_text t = (if take 1 t = ''-'' then - dec_val (strip_sign t) else dec_val (strip_sign t))"

definition fits_int :: "int \<Rightarrow> bool" where
  "fits_int v = (INT_MIN \<le> v \<and> v \<le> INT_MAX)"

definition strict_date_text :: "string \<Rightarrow> bool" where
  "strict_date_text s =
     (\<exists>t1 t2 t3. s = t1 @ ''-'' @ t2 @ ''-'' @ t3 \<and> is_int_text t1 \<and> is_int_text t2 \<and> is_int_text t3)"

definition date_text :: "string \<Rightarrow> int \<Rightarrow> int \<Rightarrow> int \<Rightarrow> bool" where
  "date_text s y m d =
     (\<exists>w1 t1 w2 w3 t2 w4 w5 t3 rest.
        s = w1 @ t1 @ w2 @ ''-'' @ w3 @ t2 @ w4 @ ''-'' @ w5 @ t3 @ rest \<and>
        list_all isspace w1 \<and> list_all isspace w2 \<and> list_all isspace w3 \<and>
        list_all isspace w4 \<and> list_all isspace w5 \<and>
        is_int_text t1 \<and> is_int_text t2 \<and> is_int_text t3 \<and>
        y = int_of_text t1 \<and> m = int_of_text t2 \<and> d = int_of_text t3 \<and>
        fits_int y \<and> fits_int m \<and> fits_int d \<and>
        \<not> list_ex isdigit (take 1 rest))"

section \<open>The record format of the specification\<close>


section \<open>Registries that the file format can hold\<close>

text \<open>
  The file format has no escape for its separators, and a \<^verbatim>\<open>float\<close> is written with six
  significant digits. \<open>registry_savable\<close> holds of the registries that the amended claim
  C1 is about: no text field contains the separator of its record or a line break, no
  budget category contains a colon or a comma, every amount is read back from its text
  as the same \<^verbatim>\<open>float\<close>, and every number is an \<^verbatim>\<open>int\<close>. \<open>map_sorted\<close> holds of every
  \<^verbatim>\<open>std::map\<close>: its keys ascend strictly.
\<close>

definition plain_text :: "string \<Rightarrow> bool" where
  "plain_text s = (CHR ''|'' \<notin> set s \<and> CHR 0x0A \<notin> set s)"

definition budget_key_text :: "string \<Rightarrow> bool" where
  "budget_key_text s = (CHR '':'' \<notin> set s \<and> CHR '','' \<notin> set s \<and> CHR 0x0A \<notin> set s)"

definition float_survives :: "float \<Rightarrow> bool" where
  "float_survives a = (stof (show_float a) = Inr a)"

definition transaction_savable :: "transaction \<Rightarrow> bool" where
  "transaction_savable t =
     (plain_text (date t) \<and> plain_text (category t) \<and> plain_text (description t) \<and>
      float_survives (amount t) \<and> type t \<noteq> CHR ''|'' \<and> type t \<noteq> CHR 0x0A \<and> fits_int (id' t))"

definition budget_savable :: "string \<times> float \<Rightarrow> bool" where
  "budget_savable e = (case e of (cat, val) \<Rightarrow> budget_key_text cat \<and> float_survives val)"

definition map_sorted :: "float_map \<Rightarrow> bool" where
  "map_sorted m = sorted_wrt (<) (map fst m)"

definition profile_savable :: "user_profile \<Rightarrow> bool" where
  "profile_savable user =
     (plain_text (username user) \<and> plain_text (password user) \<and>
      fits_int (next_transaction_id user) \<and>
      map_sorted (budgetPerCategory user) \<and> list_all budget_savable (budgetPerCategory user) \<and>
      list_all transaction_savable (transactions user))"

definition registry_savable :: "user_profile list \<Rightarrow> bool" where
  "registry_savable us = list_all profile_savable us"

text \<open>
  The lines that \<^verbatim>\<open>saveToFile\<close> writes for a profile, each without the line break that ends
  it, the text of one budget entry without its comma, and the characters that the text of
  a \<^verbatim>\<open>float\<close> is made of.
\<close>

abbreviation (input) nl :: char where
  "nl \<equiv> CHR 0x0A"

definition budget_token :: "string \<times> float \<Rightarrow> string" where
  "budget_token e = (case e of (cat, val) \<Rightarrow> cat @ '':'' @ show_float val)"

definition transaction_line :: "transaction \<Rightarrow> string" where
  "transaction_line t =
     ''TRANS|'' @ show_int (id' t) @ ''|'' @ date t @ ''|'' @ category t @ ''|'' @ description t @ ''|'' @
     show_float (amount t) @ ''|'' @ [type t]"

definition user_lines :: "user_profile \<Rightarrow> string list" where
  "user_lines user =
     [''USER|'' @ username user @ ''|'' @ password user,
      ''NEXT_ID|'' @ show_int (next_transaction_id user),
      ''BUDGETS|'' @ concat (map save_budget (budgetPerCategory user))] @
     map transaction_line (transactions user) @ [''ENDUSER'']"

definition float_char :: "char \<Rightarrow> bool" where
  "float_char c = (isdigit c \<or> c = CHR ''.'' \<or> c = CHR ''e'' \<or> c = CHR ''+'' \<or> c = CHR ''-'' \<or>
     c = CHR ''i'' \<or> c = CHR ''n'' \<or> c = CHR ''f'' \<or> c = CHR ''a'')"

section \<open>Properties of the date parser\<close>

text \<open>
  Claim C10. The date parser accepts more than the strict \<open>YYYY-MM-DD\<close> shape: with
  characters after the day number, with white space around the numbers, and with negative
  fields, it succeeds and returns the components it extracted.
\<close>

theorem parse_date_accepts_loose_input:
  "parse_date ''2024-1-5abc'' = Some (2024, 1, 5) \<and>
   parse_date '' 2024 - 1 - 5 '' = Some (2024, 1, 5) \<and>
   parse_date ''-2024--1--5'' = Some (- 2024, - 1, - 5)"
  by code_simp



lemma isspace_not_digit: "isspace c \<Longrightarrow> \<not> isdigit c"
  by (auto simp: isspace_def isdigit_def)

lemma digit_not_sign: "isdigit c \<Longrightarrow> c \<noteq> CHR ''-'' \<and> c \<noteq> CHR ''+'' \<and> \<not> isspace c"
  by (auto simp: isspace_def isdigit_def)

lemma sign_not_space: "\<not> isspace (CHR ''-'')" "\<not> isspace (CHR ''+'')"
  by (simp_all add: isspace_def)

lemma dropWhile_spaces:
  assumes "list_all isspace w" and "take 1 r \<noteq> [] \<and> \<not> list_all isspace (take 1 r)"
  shows "dropWhile isspace (w @ r) = r" and "takeWhile isspace (w @ r) = w"
proof -
  from assms(2) obtain c r' where r: "r = c # r'" and c: "\<not> isspace c"
    by (cases r) auto
  from assms(1) show "dropWhile isspace (w @ r) = r"
    unfolding r using c by (induction w) auto
  from assms(1) show "takeWhile isspace (w @ r) = w"
    unfolding r using c by (induction w) auto
qed

lemma takeWhile_digits:
  assumes "list_all isdigit ds" and "\<not> list_ex isdigit (take 1 r)"
  shows "takeWhile isdigit (ds @ r) = ds" and "dropWhile isdigit (ds @ r) = r"
proof -
  from assms(2) have r: "r = [] \<or> (\<exists>c r'. r = c # r' \<and> \<not> isdigit c)"
    by (cases r) auto
  from assms(1) r show "takeWhile isdigit (ds @ r) = ds"
    by (induction ds) auto
  from assms(1) r show "dropWhile isdigit (ds @ r) = r"
    by (induction ds) auto
qed

text \<open>The scan of a number reads exactly an \<open><int>\<close> that is followed by no digit.\<close>

lemma scan_int_text:
  assumes "is_int_text t" and "\<not> list_ex isdigit (take 1 r)"
  shows "scan_int (t @ r) = Some (int_of_text t, r)"
proof -
  let ?ds = "strip_sign t"
  from assms(1) have ds: "?ds \<noteq> []" "list_all isdigit ?ds"
    by (simp_all add: is_int_text_def)
  have sign: "scan_sign (t @ r) = (take 1 t = ''-'', ?ds @ r)"
  proof (cases t)
    case Nil
    with ds show ?thesis by (simp add: strip_sign_def)
  next
    case (Cons c t')
    show ?thesis
    proof (cases "c = CHR ''-'' \<or> c = CHR ''+''")
      case True
      with Cons show ?thesis by (auto simp: scan_sign_def strip_sign_def)
    next
      case False
      with Cons show ?thesis by (auto simp: scan_sign_def strip_sign_def)
    qed
  qed
  from takeWhile_digits [OF ds(2) assms(2)] ds(1) sign show ?thesis
    by (simp add: scan_int_def int_of_text_def)
qed

lemma int_text_head:
  assumes "is_int_text t"
  shows "take 1 (t @ r) \<noteq> [] \<and> \<not> list_all isspace (take 1 (t @ r))"
proof (cases t)
  case Nil
  with assms show ?thesis by (simp add: is_int_text_def strip_sign_def)
next
  case (Cons c t')
  with assms have "c = CHR ''-'' \<or> c = CHR ''+'' \<or> isdigit c"
    by (auto simp: is_int_text_def strip_sign_def split: if_splits)
  with Cons show ?thesis
    using sign_not_space digit_not_sign by auto
qed

lemma extract_int_text:
  assumes "list_all isspace w" and "is_int_text t" and "fits_int (int_of_text t)"
    and "\<not> list_ex isdigit (take 1 r)"
  shows "extract_int (w @ t @ r) = Some (int_of_text t, r)"
  using dropWhile_spaces(1) [OF assms(1) int_text_head [OF assms(2)], of r]
    scan_int_text [OF assms(2,4)] assms(3)
  by (simp add: extract_int_def fits_int_def)

lemma extract_dash:
  assumes "list_all isspace w"
  shows "extract_char (w @ ''-'' @ r) = Some (CHR ''-'', r)"
  using dropWhile_spaces(1) [OF assms, of "''-'' @ r"] sign_not_space
  by (simp add: extract_char_def)

lemma dash_is_no_digit: "\<not> list_ex isdigit (take 1 (w @ ''-'' @ r))" if "list_all isspace w"
  using that by (cases w) (auto simp: isdigit_def dest: isspace_not_digit)

lemma date_text_parses:
  assumes "date_text s y m d"
  shows "parse_date s = Some (y, m, d)"
proof -
  from assms obtain w1 t1 w2 w3 t2 w4 w5 t3 rest where
    s: "s = w1 @ t1 @ w2 @ ''-'' @ w3 @ t2 @ w4 @ ''-'' @ w5 @ t3 @ rest"
    and w: "list_all isspace w1" "list_all isspace w2" "list_all isspace w3"
      "list_all isspace w4" "list_all isspace w5"
    and t: "is_int_text t1" "is_int_text t2" "is_int_text t3"
    and v: "y = int_of_text t1" "m = int_of_text t2" "d = int_of_text t3"
    and f: "fits_int y" "fits_int m" "fits_int d"
    and r: "\<not> list_ex isdigit (take 1 rest)"
    unfolding date_text_def by blast
  let ?s2 = "w3 @ t2 @ w4 @ ''-'' @ w5 @ t3 @ rest"
  let ?s4 = "w5 @ t3 @ rest"
  have 1: "extract_int s = Some (y, w2 @ ''-'' @ ?s2)"
    unfolding s v using extract_int_text [OF w(1) t(1) _ dash_is_no_digit [OF w(2)]] f(1) v(1)
    by simp
  have 2: "extract_char (w2 @ ''-'' @ ?s2) = Some (CHR ''-'', ?s2)"
    by (rule extract_dash [OF w(2)])
  have 3: "extract_int ?s2 = Some (m, w4 @ ''-'' @ ?s4)"
    unfolding v using extract_int_text [OF w(3) t(2) _ dash_is_no_digit [OF w(4)]] f(2) v(2)
    by simp
  have 4: "extract_char (w4 @ ''-'' @ ?s4) = Some (CHR ''-'', ?s4)"
    by (rule extract_dash [OF w(4)])
  have 5: "extract_int ?s4 = Some (d, rest)"
    unfolding v using extract_int_text [OF w(5) t(3) _ r] f(3) v(3)
    by simp
  from 1 2 3 4 5 show ?thesis
    by (simp add: parse_date_def)
qed

lemma head_after_dropWhile: "\<not> list_ex P (take 1 (dropWhile P xs))"
  by (induction xs) auto

lemma scan_int_Some:
  assumes "scan_int s = Some (v, r)"
  shows "\<exists>t. s = t @ r \<and> is_int_text t \<and> v = int_of_text t \<and>
             \<not> list_ex isdigit (take 1 r)"
proof -
  obtain neg s1 where sign: "scan_sign s = (neg, s1)"
    by (cases "scan_sign s") auto
  let ?ds = "takeWhile isdigit s1"
  from assms sign have ds: "?ds \<noteq> []" and r: "r = dropWhile isdigit s1"
    and v: "v = (if neg then - dec_val ?ds else dec_val ?ds)"
    by (auto simp: scan_int_def Let_def split: if_splits)
  have all: "list_all isdigit ?ds"
    by (simp add: list_all_iff) (meson set_takeWhileD)
  from ds obtain c ds' where c: "?ds = c # ds'"
    by (cases ?ds) auto
  with all have digit: "isdigit c"
    by simp
  then have nosign: "take 1 ?ds \<noteq> ''-''" "take 1 ?ds \<noteq> ''+''"
    using c digit_not_sign by auto
  have s1: "s1 = ?ds @ r"
    by (simp add: r)
  from sign consider (minus) "s = CHR ''-'' # s1" "neg"
    | (plus) "s = CHR ''+'' # s1" "\<not> neg"
    | (none) "s = s1" "\<not> neg" "take 1 s \<noteq> ''-''" "take 1 s \<noteq> ''+''"
    by (cases s) (auto simp: scan_sign_def split: if_splits)
  then show ?thesis
  proof cases
    case minus
    have "s = (CHR ''-'' # ?ds) @ r"
      using minus(1) s1 by simp
    moreover have "is_int_text (CHR ''-'' # ?ds)" "int_of_text (CHR ''-'' # ?ds) = v"
      using ds all v minus(2) by (simp_all add: is_int_text_def strip_sign_def int_of_text_def)
    ultimately show ?thesis
      using r head_after_dropWhile [of isdigit s1] by blast
  next
    case plus
    have "s = (CHR ''+'' # ?ds) @ r"
      using plus(1) s1 by simp
    moreover have "is_int_text (CHR ''+'' # ?ds)" "int_of_text (CHR ''+'' # ?ds) = v"
      using ds all v plus(2) by (simp_all add: is_int_text_def strip_sign_def int_of_text_def)
    ultimately show ?thesis
      using r head_after_dropWhile [of isdigit s1] by blast
  next
    case none
    have "s = ?ds @ r"
      using none(1) s1 by simp
    moreover have "is_int_text ?ds" "int_of_text ?ds = v"
      using ds all v none(2) nosign by (simp_all add: is_int_text_def strip_sign_def int_of_text_def)
    ultimately show ?thesis
      using r head_after_dropWhile [of isdigit s1] by blast
  qed
qed

lemma extract_int_Some:
  assumes "extract_int s = Some (v, r)"
  shows "\<exists>w t. s = w @ t @ r \<and> list_all isspace w \<and> is_int_text t \<and> v = int_of_text t \<and>
               fits_int v \<and> \<not> list_ex isdigit (take 1 r)"
proof -
  from assms have scan: "scan_int (dropWhile isspace s) = Some (v, r)" and fits: "fits_int v"
    by (auto simp: extract_int_def fits_int_def split: option.splits if_splits)
  from scan_int_Some [OF scan] obtain t where
    t: "dropWhile isspace s = t @ r" "is_int_text t" "v = int_of_text t"
      "\<not> list_ex isdigit (take 1 r)"
    by blast
  have "s = takeWhile isspace s @ t @ r"
    using t(1) by (metis takeWhile_dropWhile_id)
  moreover have "list_all isspace (takeWhile isspace s)"
    by (simp add: list_all_iff) (meson set_takeWhileD)
  ultimately show ?thesis
    using t fits by blast
qed

lemma extract_char_Some:
  assumes "extract_char s = Some (c, r)"
  shows "\<exists>w. s = w @ c # r \<and> list_all isspace w"
proof -
  from assms have "dropWhile isspace s = c # r"
    by (auto simp: extract_char_def split: list.splits)
  then have "s = takeWhile isspace s @ c # r"
    by (metis takeWhile_dropWhile_id)
  moreover have "list_all isspace (takeWhile isspace s)"
    by (simp add: list_all_iff) (meson set_takeWhileD)
  ultimately show ?thesis
    by blast
qed

lemma parse_date_Some:
  assumes "parse_date s = Some (y, m, d)"
  shows "date_text s y m d"
proof -
  from assms obtain s1 s2 s3 s4 s5 where
    1: "extract_int s = Some (y, s1)" and 2: "extract_char s1 = Some (CHR ''-'', s2)"
    and 3: "extract_int s2 = Some (m, s3)" and 4: "extract_char s3 = Some (CHR ''-'', s4)"
    and 5: "extract_int s4 = Some (d, s5)"
    by (auto simp: parse_date_def split: option.splits if_splits)
  from extract_int_Some [OF 1] obtain w1 t1 where
    a: "s = w1 @ t1 @ s1" "list_all isspace w1" "is_int_text t1" "y = int_of_text t1" "fits_int y"
    by blast
  from extract_char_Some [OF 2] obtain w2 where
    b: "s1 = w2 @ CHR ''-'' # s2" "list_all isspace w2"
    by blast
  from extract_int_Some [OF 3] obtain w3 t2 where
    c: "s2 = w3 @ t2 @ s3" "list_all isspace w3" "is_int_text t2" "m = int_of_text t2" "fits_int m"
    by blast
  from extract_char_Some [OF 4] obtain w4 where
    e: "s3 = w4 @ CHR ''-'' # s4" "list_all isspace w4"
    by blast
  from extract_int_Some [OF 5] obtain w5 t3 where
    f: "s4 = w5 @ t3 @ s5" "list_all isspace w5" "is_int_text t3" "d = int_of_text t3" "fits_int d"
      "\<not> list_ex isdigit (take 1 s5)"
    by blast
  have "s = w1 @ t1 @ w2 @ ''-'' @ w3 @ t2 @ w4 @ ''-'' @ w5 @ t3 @ s5"
    using a(1) b(1) c(1) e(1) f(1) by simp
  with a b c e f have all:
    "s = w1 @ t1 @ w2 @ ''-'' @ w3 @ t2 @ w4 @ ''-'' @ w5 @ t3 @ s5 \<and>
     list_all isspace w1 \<and> list_all isspace w2 \<and> list_all isspace w3 \<and>
     list_all isspace w4 \<and> list_all isspace w5 \<and>
     is_int_text t1 \<and> is_int_text t2 \<and> is_int_text t3 \<and>
     y = int_of_text t1 \<and> m = int_of_text t2 \<and> d = int_of_text t3 \<and>
     fits_int y \<and> fits_int m \<and> fits_int d \<and>
     \<not> list_ex isdigit (take 1 s5)"
    by simp
  show ?thesis
    unfolding date_text_def
    by (rule exI [of _ w1], rule exI [of _ t1], rule exI [of _ w2], rule exI [of _ w3],
        rule exI [of _ t2], rule exI [of _ w4], rule exI [of _ w5], rule exI [of _ t3],
        rule exI [of _ s5]) (rule all)
qed

lemma strict_date_text_parses:
  assumes "is_int_text t1" "is_int_text t2" "is_int_text t3"
    and "fits_int (int_of_text t1)" "fits_int (int_of_text t2)" "fits_int (int_of_text t3)"
  shows "parse_date (t1 @ ''-'' @ t2 @ ''-'' @ t3) = Some (int_of_text t1, int_of_text t2, int_of_text t3)"
proof -
  have "date_text (t1 @ ''-'' @ t2 @ ''-'' @ t3) (int_of_text t1) (int_of_text t2) (int_of_text t3)"
    unfolding date_text_def
    by (rule exI [of _ "[]"], rule exI [of _ t1], rule exI [of _ "[]"], rule exI [of _ "[]"],
        rule exI [of _ t2], rule exI [of _ "[]"], rule exI [of _ "[]"], rule exI [of _ t3],
        rule exI [of _ "[]"]) (use assms in simp)
  then show ?thesis
    by (rule date_text_parses)
qed

text \<open>
  Claim C7, as amended. The date parser succeeds exactly on a text that has the form
  \<open><int>-<int>-<int>\<close> at its head, where white space may stand before each number and
  each dash, each number fits an \<^verbatim>\<open>int\<close>, and the text after the digits of the day is
  ignored; it returns the three numbers, with no check that they are a date of the
  calendar (the witness has month 13 and day 40); on every other text it fails.
\<close>

theorem parse_date_succeeds_exactly_on_date_text:
  "(parse_date s = Some (y, m, d)) = date_text s y m d"
  using parse_date_Some date_text_parses by blast

theorem parse_date_succeeds_exactly_on_date_text_witness:
  "parse_date '' 2024 -13- 40th'' = Some (2024, 13, 40) \<and> date_text '' 2024 -13- 40th'' 2024 13 40"
proof -
  have "parse_date '' 2024 -13- 40th'' = Some (2024, 13, 40)"
    by code_simp
  with parse_date_succeeds_exactly_on_date_text [of "'' 2024 -13- 40th''" 2024 13 40]
  show ?thesis
    by simp
qed

lemma int_text_ends_with_digit:
  assumes "is_int_text t"
  shows "t \<noteq> [] \<and> isdigit (last t)"
proof -
  from assms have ds: "strip_sign t \<noteq> []" "list_all isdigit (strip_sign t)"
    by (simp_all add: is_int_text_def)
  then have "isdigit (last (strip_sign t))"
    by (simp add: list_all_iff)
  moreover from ds(1) have "t \<noteq> []" "last (strip_sign t) = last t"
    by (auto simp: strip_sign_def last_drop split: if_splits)
  ultimately show ?thesis
    by simp
qed

text \<open>
  Claim C7 as it is stated, success exactly on text of the form \<open><int>-<int>-<int>\<close>, fails:
  the parser succeeds on a text with letters after the day, which is not of that form.
\<close>

theorem parse_date_succeeds_beyond_strict_form:
  "parse_date ''2024-1-5abc'' = Some (2024, 1, 5) \<and> \<not> strict_date_text ''2024-1-5abc''"
proof -
  have "parse_date ''2024-1-5abc'' = Some (2024, 1, 5)"
    by code_simp
  moreover have "\<not> strict_date_text ''2024-1-5abc''"
  proof
    assume "strict_date_text ''2024-1-5abc''"
    then obtain t1 t2 t3 where s: "''2024-1-5abc'' = t1 @ ''-'' @ t2 @ ''-'' @ t3" and "is_int_text t3"
      unfolding strict_date_text_def by blast
    from int_text_ends_with_digit [OF this(2)] have t3: "t3 \<noteq> []" "isdigit (last t3)"
      by simp_all
    from s t3(1) have "last ''2024-1-5abc'' = last t3"
      by (metis append_Cons last_appendR list.distinct(1))
    with t3(2) have "isdigit (last ''2024-1-5abc'')"
      by simp
    then show False
      by (simp add: isdigit_def)
  qed
  ultimately show ?thesis
    by simp
qed

section \<open>Properties of the transaction store\<close>

lemma find_id_Some:
  "find_id i ts = Some n \<Longrightarrow> n < length ts \<and> id' (ts ! n) = i"
  by (induction ts arbitrary: n) (auto split: if_splits option.splits)

lemma id_edit_transaction [simp]:
  "id' (edit_transaction t nd nc nde na nt) = id' t"
  by (simp add: edit_transaction_def Let_def split: sum.splits)

lemma date_edit_transaction:
  "date (edit_transaction t nd nc nde na nt) = (if nd = [] then date t else nd)"
  by (simp add: edit_transaction_def Let_def split: sum.splits)

lemma category_edit_transaction:
  "category (edit_transaction t nd nc nde na nt) = (if nc = [] then category t else nc)"
  by (simp add: edit_transaction_def Let_def split: sum.splits)

lemma description_edit_transaction:
  "description (edit_transaction t nd nc nde na nt) = (if nde = [] then description t else nde)"
  by (simp add: edit_transaction_def Let_def split: sum.splits)

lemma amount_edit_transaction:
  "amount (edit_transaction t nd nc nde na nt) =
     (if na = [] then amount t else (case stof na of Inl e \<Rightarrow> amount t | Inr a \<Rightarrow> a))"
  by (simp add: edit_transaction_def Let_def split: sum.splits)

lemma type_edit_transaction:
  "type (edit_transaction t nd nc nde na nt) =
     (if nt = [] then type t else if is_type_char nt then toupper (hd nt) else type t)"
  by (simp add: edit_transaction_def Let_def is_type_char_def split: sum.splits)

text \<open>
  Claim C8. An edit of an existing transaction, found by its id, changes neither its id
  nor its place in the store; a field for which the user entered nothing is left as it is,
  and only a field with a valid entry is replaced.
\<close>

theorem edit_keeps_id_and_fields_not_supplied:
  assumes "id_str \<noteq> []" and "stoi id_str = Inr i" and "find_id i (transactions user) = Some n"
  shows "\<exists>t'. edit_delete_transaction_ui user id_str (Edit nd nc nde na nt) =
                user\<lparr>transactions := (transactions user)[n := t']\<rparr> \<and>
              n < length (transactions user) \<and>
              id' (transactions user ! n) = i \<and>
              id' t' = i \<and>
              map id' ((transactions user)[n := t']) = map id' (transactions user) \<and>
              date t' = (if nd = [] then date (transactions user ! n) else nd) \<and>
              category t' = (if nc = [] then category (transactions user ! n) else nc) \<and>
              description t' = (if nde = [] then description (transactions user ! n) else nde) \<and>
              amount t' =
                (if na = [] then amount (transactions user ! n)
                 else (case stof na of Inl e \<Rightarrow> amount (transactions user ! n) | Inr a \<Rightarrow> a)) \<and>
              type t' =
                (if nt = [] then type (transactions user ! n)
                 else if is_type_char nt then toupper (hd nt) else type (transactions user ! n))"
proof -
  let ?t = "transactions user ! n"
  let ?t' = "edit_transaction ?t nd nc nde na nt"
  from assms(3) have n: "n < length (transactions user)" and i: "id' ?t = i"
    by (simp_all add: find_id_Some)
  have run: "edit_delete_transaction_ui user id_str (Edit nd nc nde na nt) =
               user\<lparr>transactions := (transactions user)[n := ?t']\<rparr>"
    using assms by (simp add: edit_delete_transaction_ui_def)
  have ids: "map id' ((transactions user)[n := ?t']) = map id' (transactions user)"
    using n i by (simp add: map_update list_update_same_conv)
  show ?thesis
    using run n i ids
    by (intro exI [of _ ?t'])
      (simp add: date_edit_transaction category_edit_transaction description_edit_transaction
        amount_edit_transaction type_edit_transaction)
qed

theorem edit_keeps_id_and_fields_not_supplied_witness:
  "''2'' \<noteq> [] \<and> stoi ''2'' = Inr 2 \<and>
   find_id 2
     [\<lparr>date = ''2024-01-15'', category = ''Food'', description = ''lunch'', amount = Fin 18,
       type = CHR ''E'', id' = 1\<rparr>,
      \<lparr>date = ''2024-01-20'', category = ''Pay'', description = ''salary'', amount = Fin 100,
       type = CHR ''I'', id' = 2\<rparr>] = Some 1 \<and>
   edit_delete_transaction_ui
     ((new_profile ''ann'' ''pw'')
        \<lparr>transactions :=
           [\<lparr>date = ''2024-01-15'', category = ''Food'', description = ''lunch'', amount = Fin 18,
             type = CHR ''E'', id' = 1\<rparr>,
            \<lparr>date = ''2024-01-20'', category = ''Pay'', description = ''salary'', amount = Fin 100,
             type = CHR ''I'', id' = 2\<rparr>],
         next_transaction_id := 3\<rparr>)
     ''2'' (Edit [] ''Wages'' [] ''13.5'' ''x'') =
     (new_profile ''ann'' ''pw'')
        \<lparr>transactions :=
           [\<lparr>date = ''2024-01-15'', category = ''Food'', description = ''lunch'', amount = Fin 18,
             type = CHR ''E'', id' = 1\<rparr>,
            \<lparr>date = ''2024-01-20'', category = ''Wages'', description = ''salary'',
             amount = Fin (27 / 2), type = CHR ''I'', id' = 2\<rparr>],
         next_transaction_id := 3\<rparr>"
proof -
  have hyps:
    "''2'' \<noteq> [] \<and> stoi ''2'' = Inr 2 \<and>
     find_id 2
       [\<lparr>date = ''2024-01-15'', category = ''Food'', description = ''lunch'', amount = Fin 18,
         type = CHR ''E'', id' = 1\<rparr>,
        \<lparr>date = ''2024-01-20'', category = ''Pay'', description = ''salary'', amount = Fin 100,
         type = CHR ''I'', id' = 2\<rparr>] = Some 1"
    by code_simp
  have result:
    "edit_delete_transaction_ui
       ((new_profile ''ann'' ''pw'')
          \<lparr>transactions :=
             [\<lparr>date = ''2024-01-15'', category = ''Food'', description = ''lunch'', amount = Fin 18,
               type = CHR ''E'', id' = 1\<rparr>,
              \<lparr>date = ''2024-01-20'', category = ''Pay'', description = ''salary'', amount = Fin 100,
               type = CHR ''I'', id' = 2\<rparr>],
           next_transaction_id := 3\<rparr>)
       ''2'' (Edit [] ''Wages'' [] ''13.5'' ''x'') =
       (new_profile ''ann'' ''pw'')
          \<lparr>transactions :=
             [\<lparr>date = ''2024-01-15'', category = ''Food'', description = ''lunch'', amount = Fin 18,
               type = CHR ''E'', id' = 1\<rparr>,
              \<lparr>date = ''2024-01-20'', category = ''Wages'', description = ''salary'',
               amount = Fin (27 / 2), type = CHR ''I'', id' = 2\<rparr>],
           next_transaction_id := 3\<rparr>"
    by code_simp
  note fields =
    edit_keeps_id_and_fields_not_supplied
      [of "''2''" 2
          "(new_profile ''ann'' ''pw'')
             \<lparr>transactions :=
                [\<lparr>date = ''2024-01-15'', category = ''Food'', description = ''lunch'', amount = Fin 18,
                  type = CHR ''E'', id' = 1\<rparr>,
                 \<lparr>date = ''2024-01-20'', category = ''Pay'', description = ''salary'', amount = Fin 100,
                  type = CHR ''I'', id' = 2\<rparr>],
              next_transaction_id := 3\<rparr>"
          1 "[]" "''Wages''" "[]" "''13.5''" "''x''"]
  from hyps result fields show ?thesis
    by blast
qed


lemma run_ops_append:
  "run_ops user (xs @ ys) =
     (case run_ops user xs of Inl e \<Rightarrow> Inl e | Inr user' \<Rightarrow> run_ops user' ys)"
  by (induction xs arbitrary: user) (auto split: sum.splits)

lemma add_transaction_ui_cases:
  "add_transaction_ui user ds cs des ams tys = Inr user \<or>
   (next_transaction_id user = INT_MAX \<and>
    add_transaction_ui user ds cs des ams tys = Inl Signed_overflow) \<or>
   (next_transaction_id user \<noteq> INT_MAX \<and>
    (\<exists>t. id' t = next_transaction_id user \<and>
         add_transaction_ui user ds cs des ams tys =
           Inr (user\<lparr>transactions := transactions user @ [t],
                     next_transaction_id := next_transaction_id user + 1\<rparr>)))"
proof (cases "add_transaction_ui user ds cs des ams tys = Inr user \<or>
    next_transaction_id user = INT_MAX")
  case True
  then show ?thesis
    by (auto simp: add_transaction_ui_def split: sum.splits if_splits)
next
  case False
  then obtain a where
    "add_transaction_ui user ds cs des ams tys =
       Inr (user\<lparr>transactions := transactions user @
              [\<lparr>date = ds, category = cs, description = des, amount = a,
                type = toupper (hd tys), id' = next_transaction_id user\<rparr>],
            next_transaction_id := next_transaction_id user + 1\<rparr>)"
    by (auto simp: add_transaction_ui_def split: sum.splits if_splits)
  moreover have "id' \<lparr>date = ds, category = cs, description = des, amount = a,
                type = toupper (hd tys), id' = next_transaction_id user\<rparr> = next_transaction_id user"
    by simp
  ultimately show ?thesis
    using False by blast
qed

lemma edit_delete_ids:
  "next_transaction_id (edit_delete_transaction_ui user id_str act) = next_transaction_id user \<and>
   (map id' (transactions (edit_delete_transaction_ui user id_str act)) = map id' (transactions user) \<or>
    (\<exists>n < length (transactions user).
       map id' (transactions (edit_delete_transaction_ui user id_str act)) =
         take n (map id' (transactions user)) @ drop (Suc n) (map id' (transactions user))))"
proof -
  have "id' (edit_transaction t a b c d e) = id' t" for t a b c d e
    by (simp add: edit_transaction_def Let_def split: sum.splits)
  then have edit: "map id' (ts[n := edit_transaction (ts ! n) a b c d e]) = map id' ts" for ts n a b c d e
    by (cases "n < length ts") (simp_all add: map_update list_update_same_conv list_update_beyond)
  have found: "find_id i ts = Some n \<Longrightarrow> n < length ts" for i ts n
    by (induction ts arbitrary: n) (auto split: if_splits option.splits)
  show ?thesis
    by (auto simp: edit_delete_transaction_ui_def edit take_map drop_map dest: found
        split: sum.splits option.splits action.splits)
qed

lemma sorted_wrt_remove_nth:
  assumes "sorted_wrt P xs" and "n < length xs"
  shows "sorted_wrt P (take n xs @ drop (Suc n) xs)"
proof -
  from assms(2) have "xs = take n xs @ xs ! n # drop (Suc n) xs"
    by (rule id_take_nth_drop)
  with assms(1) have "sorted_wrt P (take n xs @ xs ! n # drop (Suc n) xs)"
    by simp
  then show ?thesis
    by (simp add: sorted_wrt_append)
qed

lemma set_remove_nth: "set (take n xs @ drop (Suc n) xs) \<subseteq> set xs"
  by (auto dest: in_set_takeD in_set_dropD)

lemma ids_inv_step:
  assumes "ids_inv user given" and "apply_op user a = Inr user'"
  shows "ids_inv user' (given @ new_ids user a user')"
proof (cases a)
  case (Add_Transaction ds cs des ams tys)
  from add_transaction_ui_cases [of user ds cs des ams tys] assms(2) Add_Transaction
  consider "user' = user"
    | t where "id' t = next_transaction_id user"
        "user' = user\<lparr>transactions := transactions user @ [t],
                       next_transaction_id := next_transaction_id user + 1\<rparr>"
    by auto
  then show ?thesis
  proof cases
    case 1
    with assms(1) show ?thesis by (simp add: new_ids_def)
  next
    case 2
    then have "new_ids user a user' = [next_transaction_id user]"
      using Add_Transaction by (simp add: new_ids_def)
    with assms(1) 2 show ?thesis
      by (auto simp: ids_inv_def sorted_wrt_append)
  qed
next
  case (Edit_Delete id_str act)
  with assms(2) have u': "user' = edit_delete_transaction_ui user id_str act"
    by simp
  have new: "new_ids user a user' = []"
    using Edit_Delete by (simp add: new_ids_def)
  from edit_delete_ids [of user id_str act] u'
  have nxt: "next_transaction_id user' = next_transaction_id user"
    and ids: "map id' (transactions user') = map id' (transactions user) \<or>
      (\<exists>n < length (map id' (transactions user)).
         map id' (transactions user') =
           take n (map id' (transactions user)) @ drop (Suc n) (map id' (transactions user)))"
    by auto
  from ids have "sorted_wrt (<) (map id' (transactions user')) \<and>
      set (map id' (transactions user')) \<subseteq> set (map id' (transactions user))"
  proof
    assume "map id' (transactions user') = map id' (transactions user)"
    with assms(1) show ?thesis by (simp add: ids_inv_def)
  next
    assume "\<exists>n < length (map id' (transactions user)).
         map id' (transactions user') =
           take n (map id' (transactions user)) @ drop (Suc n) (map id' (transactions user))"
    then obtain n where n: "n < length (map id' (transactions user))"
      and eq: "map id' (transactions user') =
           take n (map id' (transactions user)) @ drop (Suc n) (map id' (transactions user))"
      by blast
    from assms(1) have "sorted_wrt (<) (map id' (transactions user))"
      by (simp add: ids_inv_def)
    from sorted_wrt_remove_nth [OF this n] eq set_remove_nth [of n "map id' (transactions user)"]
    show ?thesis by simp
  qed
  with assms(1) nxt new show ?thesis
    by (auto simp: ids_inv_def)
qed

lemma apply_op_total:
  assumes "is_add a \<longrightarrow> next_transaction_id user < INT_MAX"
  shows "\<exists>user'. apply_op user a = Inr user' \<and>
           next_transaction_id user' \<le> next_transaction_id user + (if is_add a then 1 else 0)"
proof (cases a)
  case (Add_Transaction ds cs des ams tys)
  with assms add_transaction_ui_cases [of user ds cs des ams tys] show ?thesis
    by auto
next
  case (Edit_Delete id_str act)
  with edit_delete_ids [of user id_str act] show ?thesis by simp
qed

lemma run_ops_ids_inv:
  assumes "ids_inv user given"
    and "next_transaction_id user + int (length (filter is_add ops)) \<le> INT_MAX"
  shows "\<exists>s. run_ops user ops = Inr s \<and> ids_inv s (given @ ids_assigned user ops)"
  using assms
proof (induction ops arbitrary: user given)
  case Nil
  then show ?case by simp
next
  case (Cons a ops)
  from Cons.prems(2) have "is_add a \<longrightarrow> next_transaction_id user < INT_MAX"
    by auto
  from apply_op_total [OF this] obtain user' where
    step: "apply_op user a = Inr user'" and
    nxt: "next_transaction_id user' \<le> next_transaction_id user + (if is_add a then 1 else 0)"
    by blast
  from ids_inv_step [OF Cons.prems(1) step]
  have inv': "ids_inv user' (given @ new_ids user a user')" .
  from nxt Cons.prems(2)
  have "next_transaction_id user' + int (length (filter is_add ops)) \<le> INT_MAX"
    by (auto split: if_splits)
  from Cons.IH [OF inv' this] step show ?case
    by simp
qed

lemma ids_inv_new_profile: "ids_inv (new_profile name pw) []"
  by (simp add: ids_inv_def new_profile_def)

lemma run_ops_take:
  assumes "run_ops user ops = Inr s"
  shows "\<exists>sk. run_ops user (take k ops) = Inr sk \<and> run_ops sk (drop k ops) = Inr s"
proof -
  have "run_ops user (take k ops @ drop k ops) = Inr s"
    using assms by simp
  then show ?thesis
    unfolding run_ops_append by (auto split: sum.splits)
qed

lemma ids_assigned_append:
  "ids_assigned user (xs @ ys) =
     ids_assigned user xs @
     (case run_ops user xs of Inl e \<Rightarrow> [] | Inr user' \<Rightarrow> ids_assigned user' ys)"
  by (induction xs arbitrary: user) (auto split: sum.splits)

text \<open>
  Claim C2, as amended. For every sequence of additions, edits and deletions on a fresh
  profile with fewer than \<open>INT_MAX\<close> additions: the sequence runs without overflow; the
  ids that the additions assign increase strictly, so no id is assigned twice, also after
  deletions; and after every prefix of the sequence the ids in the store are distinct, are
  among the ids assigned, and lie below \<^verbatim>\<open>next_transaction_id\<close>, as it is then and as it is
  at the end.
\<close>

theorem ids_increase_and_are_never_reused:
  assumes "int (length (filter is_add ops)) < INT_MAX"
  shows "\<exists>s. run_ops (new_profile name pw) ops = Inr s \<and>
           sorted_wrt (<) (ids_assigned (new_profile name pw) ops) \<and>
           distinct (ids_assigned (new_profile name pw) ops) \<and>
           (\<forall>i\<in>set (ids_assigned (new_profile name pw) ops). i < next_transaction_id s) \<and>
           (\<forall>k sk. run_ops (new_profile name pw) (take k ops) = Inr sk \<longrightarrow>
              set (map id' (transactions sk)) \<subseteq> set (ids_assigned (new_profile name pw) ops) \<and>
              distinct (map id' (transactions sk)) \<and>
              (\<forall>t\<in>set (transactions sk). id' t < next_transaction_id sk \<and> id' t < next_transaction_id s))"
proof -
  let ?u = "new_profile name pw"
  have bound: "next_transaction_id ?u + int (length (filter is_add xs)) \<le> INT_MAX"
    if "length (filter is_add xs) \<le> length (filter is_add ops)" for xs
    using assms that by (simp add: new_profile_def)
  have "next_transaction_id ?u + int (length (filter is_add ops)) \<le> INT_MAX"
    by (rule bound) simp
  from run_ops_ids_inv [OF ids_inv_new_profile this]
  obtain s where run: "run_ops ?u ops = Inr s" and inv: "ids_inv s (ids_assigned ?u ops)"
    by auto
  have prefix: "set (map id' (transactions sk)) \<subseteq> set (ids_assigned ?u ops) \<and>
      distinct (map id' (transactions sk)) \<and>
      (\<forall>t\<in>set (transactions sk). id' t < next_transaction_id sk \<and> id' t < next_transaction_id s)"
    if sk: "run_ops ?u (take k ops) = Inr sk" for k sk
  proof -
    have "length (filter is_add (take k ops)) \<le> length (filter is_add ops)"
      by (metis append_take_drop_id filter_append length_append le_add1)
    then have "next_transaction_id ?u + int (length (filter is_add (take k ops))) \<le> INT_MAX"
      by (rule bound)
    from run_ops_ids_inv [OF ids_inv_new_profile this] sk
    have invk: "ids_inv sk (ids_assigned ?u (take k ops))"
      by auto
    have "ids_assigned ?u ops = ids_assigned ?u (take k ops @ drop k ops)"
      by simp
    also have "\<dots> = ids_assigned ?u (take k ops) @ ids_assigned sk (drop k ops)"
      unfolding ids_assigned_append using sk by simp
    finally have sub: "set (ids_assigned ?u (take k ops)) \<subseteq> set (ids_assigned ?u ops)"
      by simp
    from invk have "distinct (map id' (transactions sk))"
      by (simp add: ids_inv_def strict_sorted_iff)
    with invk inv sub show ?thesis
      by (fastforce simp: ids_inv_def)
  qed
  from inv have "distinct (ids_assigned ?u ops)"
    by (simp add: ids_inv_def strict_sorted_iff)
  with run inv prefix show ?thesis
    by (simp add: ids_inv_def)
qed

theorem ids_increase_and_are_never_reused_witness:
  "int (length (filter is_add
      [Add_Transaction ''2024-01-15'' ''Food'' ''lunch'' ''18'' ''e'',
       Add_Transaction ''2024-01-16'' ''Pay'' ''salary'' ''100'' ''I'',
       Edit_Delete ''2'' Delete,
       Add_Transaction ''2024-01-17'' ''Food'' ''dinner'' ''30'' ''E''])) < INT_MAX \<and>
   run_ops (new_profile ''ann'' ''pw'')
      [Add_Transaction ''2024-01-15'' ''Food'' ''lunch'' ''18'' ''e'',
       Add_Transaction ''2024-01-16'' ''Pay'' ''salary'' ''100'' ''I'',
       Edit_Delete ''2'' Delete,
       Add_Transaction ''2024-01-17'' ''Food'' ''dinner'' ''30'' ''E''] =
     Inr \<lparr>username = ''ann'', password = ''pw'',
          transactions =
            [\<lparr>date = ''2024-01-15'', category = ''Food'', description = ''lunch'', amount = Fin 18,
              type = CHR ''E'', id' = 1\<rparr>,
             \<lparr>date = ''2024-01-17'', category = ''Food'', description = ''dinner'', amount = Fin 30,
              type = CHR ''E'', id' = 3\<rparr>],
          budgetPerCategory = [], next_transaction_id = 4\<rparr> \<and>
   ids_assigned (new_profile ''ann'' ''pw'')
      [Add_Transaction ''2024-01-15'' ''Food'' ''lunch'' ''18'' ''e'',
       Add_Transaction ''2024-01-16'' ''Pay'' ''salary'' ''100'' ''I'',
       Edit_Delete ''2'' Delete,
       Add_Transaction ''2024-01-17'' ''Food'' ''dinner'' ''30'' ''E''] = [1, 2, 3]"
proof -
  let ?ops = "[Add_Transaction ''2024-01-15'' ''Food'' ''lunch'' ''18'' ''e'',
       Add_Transaction ''2024-01-16'' ''Pay'' ''salary'' ''100'' ''I'',
       Edit_Delete ''2'' Delete,
       Add_Transaction ''2024-01-17'' ''Food'' ''dinner'' ''30'' ''E'']"
  have few: "int (length (filter is_add ?ops)) < INT_MAX"
    by (simp add: INT_MAX_def)
  have run: "run_ops (new_profile ''ann'' ''pw'') ?ops =
     Inr \<lparr>username = ''ann'', password = ''pw'',
          transactions =
            [\<lparr>date = ''2024-01-15'', category = ''Food'', description = ''lunch'', amount = Fin 18,
              type = CHR ''E'', id' = 1\<rparr>,
             \<lparr>date = ''2024-01-17'', category = ''Food'', description = ''dinner'', amount = Fin 30,
              type = CHR ''E'', id' = 3\<rparr>],
          budgetPerCategory = [], next_transaction_id = 4\<rparr>"
    by code_simp
  have ids: "ids_assigned (new_profile ''ann'' ''pw'') ?ops = [1, 2, 3]"
    by code_simp
  note ids_increase_and_are_never_reused [OF few, of "''ann''" "''pw''"]
  with few run ids show ?thesis
    by blast
qed

lemma run_adds:
  assumes step: "\<And>u. next_transaction_id u \<noteq> INT_MAX \<Longrightarrow>
      \<exists>u'. apply_op u a = Inr u' \<and> next_transaction_id u' = next_transaction_id u + 1"
  shows "next_transaction_id user + int n \<le> INT_MAX \<Longrightarrow>
    \<exists>u'. run_ops user (replicate n a) = Inr u' \<and>
      next_transaction_id u' = next_transaction_id user + int n"
proof (induction n arbitrary: user)
  case 0
  then show ?case by simp
next
  case (Suc n)
  then have "next_transaction_id user \<noteq> INT_MAX"
    by auto
  from step [OF this] obtain u' where
    u': "apply_op user a = Inr u'" "next_transaction_id u' = next_transaction_id user + 1"
    by blast
  with Suc.prems have "next_transaction_id u' + int n \<le> INT_MAX"
    by simp
  from Suc.IH [OF this] u' show ?case
    by auto
qed

text \<open>
  Claim C2 as it is stated, for every sequence of operations, fails at the bound of
  \<^verbatim>\<open>int\<close>: the addition number \<open>INT_MAX\<close> on a fresh profile assigns the id \<open>INT_MAX\<close>
  and then increments \<^verbatim>\<open>next_transaction_id\<close> beyond it, a signed overflow.
\<close>

theorem add_overflows_after_INT_MAX_additions:
  "run_ops (new_profile ''ann'' ''pw'')
     (replicate 2147483647 (Add_Transaction ''2024-01-20'' ''Food'' ''lunch'' ''40'' ''E'')) =
   Inl Signed_overflow"
proof -
  let ?a = "Add_Transaction ''2024-01-20'' ''Food'' ''lunch'' ''40'' ''E''"
  have amount: "stof ''40'' = Inr (Fin 40)"
    by code_simp
  have kind: "is_type_char ''E''"
    by code_simp
  have last: "apply_op u ?a = Inl Signed_overflow" if "next_transaction_id u = INT_MAX" for u
    using that by (simp add: add_transaction_ui_def amount kind)
  have step: "\<exists>u'. apply_op u ?a = Inr u' \<and> next_transaction_id u' = next_transaction_id u + 1"
    if "next_transaction_id u \<noteq> INT_MAX" for u
    using that by (simp add: add_transaction_ui_def amount kind)
  have "next_transaction_id (new_profile ''ann'' ''pw'') + int 2147483646 \<le> INT_MAX"
    by (simp add: new_profile_def INT_MAX_def)
  from run_adds [of ?a, OF step this] obtain u' where
    u': "run_ops (new_profile ''ann'' ''pw'') (replicate 2147483646 ?a) = Inr u'"
      "next_transaction_id u' = INT_MAX"
    by (auto simp: new_profile_def INT_MAX_def)
  have "Suc 2147483646 = 2147483647"
    by simp
  moreover have "replicate (Suc 2147483646) ?a = replicate 2147483646 ?a @ [?a]"
    unfolding replicate_Suc by (rule replicate_append_same [symmetric])
  ultimately have "replicate 2147483647 ?a = replicate 2147483646 ?a @ [?a]"
    by (simp only:)
  then show ?thesis
    using u' last [OF u'(2)] by (simp add: run_ops_append)
qed

section \<open>Properties of the reports\<close>

text \<open>
  What the two reports do compute. The amount spent in a category is the sum, from
  \<^verbatim>\<open>0.0f\<close> and in the order of the store, of the amounts of its transactions of type
  \<^verbatim>\<open>'E'\<close>; the budget report has one line for each entry of the budget map, in the order
  of the map. The lines of a summary are the entries of the income map in the order of
  their keys, and the net of a line is its income minus its expense.
\<close>

lemma map_of_map_put: "map_of (map_put k v m) = (map_of m)(k \<mapsto> v)"
  by (induction m) auto

lemma map_at_map_incr:
  "map_at (map_incr k a m) k' = (if k' = k then fadd (map_at m k) a else map_at m k')"
  by (simp add: map_at_def map_incr_def map_of_map_put)

lemma spent_in_category:
  "map_at (calculateExpensesByCategory ts) cat =
     foldl fadd (Fin 0) (map amount (filter (\<lambda>t. type t = CHR ''E'' \<and> category t = cat) ts))"
proof -
  have "map_at (foldl (\<lambda>expenses t. if type t = CHR ''E''
            then map_incr (category t) (amount t) expenses else expenses) m ts) cat =
        foldl fadd (map_at m cat) (map amount (filter (\<lambda>t. type t = CHR ''E'' \<and> category t = cat) ts))"
    for m
    by (induction ts arbitrary: m) (simp_all add: map_at_map_incr)
  from this [of "[]"] show ?thesis
    by (simp add: calculateExpensesByCategory_def map_at_def)
qed

lemma budget_report_lines:
  "fst (drawBudgetReport user) =
     map (\<lambda>(cat, budget).
            (cat, budget, map_at (calculateExpensesByCategory (transactions user)) cat,
             display_color (map_at (calculateExpensesByCategory (transactions user)) cat) budget))
       (budgetPerCategory user)"
  by (simp add: drawBudgetReport_def Let_def)

lemma budget_report_categories:
  "map (\<lambda>(cat, budget, spent, c). (cat, budget)) (fst (drawBudgetReport user)) = budgetPerCategory user"
  by (simp add: drawBudgetReport_def Let_def case_prod_unfold comp_def)

lemma summary_lines_periods:
  "sorted (map fst (summary_lines incomes expenses)) \<and>
   set (map fst (summary_lines incomes expenses)) = fst ` set incomes"
proof -
  have "map fst (summary_lines incomes expenses) = map fst (sort_key fst incomes)"
    by (simp add: summary_lines_def case_prod_unfold comp_def)
  then show ?thesis
    by (simp add: sorted_sort_key)
qed

lemma summary_lines_net:
  "(period, income, expense, net) \<in> set (summary_lines incomes expenses) \<Longrightarrow>
     (period, income) \<in> set incomes \<and> expense = map_at expenses period \<and> net = fsub income expense"
  by (auto simp: summary_lines_def)

text \<open>
  Claim C3. The time series accumulates the income and the expense of every transaction
  whose date parses into a monthly and a yearly bucket and emits the buckets in ascending
  order of their keys. The program fills a bucket for the only transaction below, an
  expense of 40 in January 2024, and then draws no line at all: the lines are drawn for
  the keys of the income maps, and a period with no income has no line.
\<close>

theorem time_series_drops_expense_only_period:
  "monthly_expense (time_series
      [\<lparr>date = ''2024-01-20'', category = ''Food'', description = ''lunch'', amount = Fin 40,
        type = CHR ''E'', id' = 1\<rparr>]) = [(''2024-01'', Fin 40)] \<and>
   yearly_expense (time_series
      [\<lparr>date = ''2024-01-20'', category = ''Food'', description = ''lunch'', amount = Fin 40,
        type = CHR ''E'', id' = 1\<rparr>]) = [(''2024'', Fin 40)] \<and>
   draw_time_series_report
     ((new_profile ''ann'' ''pw'')
        \<lparr>transactions :=
           [\<lparr>date = ''2024-01-20'', category = ''Food'', description = ''lunch'', amount = Fin 40,
             type = CHR ''E'', id' = 1\<rparr>]\<rparr>) = ([], [])"
  by code_simp

text \<open>
  Claim C4. The budget report has a line for each category of the budget map; its status
  is Exceeded when spent > budget, Warning when budget > 0 and spent / budget \<ge> 0.9, and
  OK otherwise. With a budget of 20 for Food and 18 spent, which is 90 per cent, the
  program draws the line in black, the colour of OK: the quotient of the two \<^verbatim>\<open>float\<close>s is
  the \<^verbatim>\<open>float\<close> nearest to 0.9, which lies below the \<^verbatim>\<open>double\<close> 0.9 it is compared with.
\<close>

theorem budget_report_no_warning_at_90_percent:
  "fdiv (Fin 18) (Fin 20) = Fin (7549747 / 8388608) \<and>
   to_double (9 / 10) = Fin (8106479329266893 / 9007199254740992) \<and>
   drawBudgetReport
     ((new_profile ''ann'' ''pw'')
        \<lparr>transactions :=
           [\<lparr>date = ''2024-01-20'', category = ''Food'', description = ''lunch'', amount = Fin 18,
             type = CHR ''E'', id' = 1\<rparr>],
         budgetPerCategory := [(''Food'', Fin 20)]\<rparr>) =
     ([(''Food'', Fin 20, Fin 18, COLOR_BLACK)], False)"
  by code_simp



lemma time_series_snoc: "time_series (ts @ [t]) = series_step (time_series ts) t"
  by (simp add: time_series_def)

lemma draw_summary_snoc:
  "draw_summary (ts @ [t]) =
     (case draw_summary ts of
        (i, e, n) \<Rightarrow>
          if type t = CHR ''I'' then (fadd i (amount t), e, fsub (fadd i (amount t)) e)
          else if type t = CHR ''E'' then (i, fadd e (amount t), fsub i (fadd e (amount t)))
          else (i, e, n))"
  by (simp add: draw_summary_def summary_step_def split: prod.splits)

text \<open>
  Claim C9. In the time series every transaction whose type is not \<^verbatim>\<open>'I'\<close> counts as an
  expense, a malformed type such as \<^verbatim>\<open>'X'\<close> too; the summary counts only the type \<^verbatim>\<open>'E'\<close>
  as an expense and leaves any other type out of both totals. So the two reports can
  classify one entry differently.
\<close>

theorem series_counts_every_other_type_as_expense:
  assumes "parse_date (date t) = Some (y, m, d)" and "type t \<noteq> CHR ''I''"
  shows "time_series (ts @ [t]) =
           (time_series ts)
             \<lparr>monthly_expense := map_incr (month_key y m) (amount t) (monthly_expense (time_series ts)),
              yearly_expense := map_incr (show_int y) (amount t) (yearly_expense (time_series ts))\<rparr> \<and>
         draw_summary (ts @ [t]) =
           (if type t = CHR ''E''
            then (case draw_summary ts of (i, e, n) \<Rightarrow> (i, fadd e (amount t), fsub i (fadd e (amount t))))
            else draw_summary ts)"
  using assms by (simp add: time_series_snoc series_step_def draw_summary_snoc split: prod.splits)

theorem series_counts_every_other_type_as_expense_witness:
  "parse_date ''2024-01-20'' = Some (2024, 1, 20) \<and>
   time_series
     [\<lparr>date = ''2024-01-15'', category = ''Pay'', description = ''salary'', amount = Fin 100,
       type = CHR ''I'', id' = 1\<rparr>,
      \<lparr>date = ''2024-01-20'', category = ''Food'', description = ''lunch'', amount = Fin 5,
       type = CHR ''X'', id' = 2\<rparr>] =
     \<lparr>monthly_income = [(''2024-01'', Fin 100)], monthly_expense = [(''2024-01'', Fin 5)],
      yearly_income = [(''2024'', Fin 100)], yearly_expense = [(''2024'', Fin 5)]\<rparr> \<and>
   draw_summary
     [\<lparr>date = ''2024-01-15'', category = ''Pay'', description = ''salary'', amount = Fin 100,
       type = CHR ''I'', id' = 1\<rparr>,
      \<lparr>date = ''2024-01-20'', category = ''Food'', description = ''lunch'', amount = Fin 5,
       type = CHR ''X'', id' = 2\<rparr>] = (Fin 100, Fin 0, Fin 100)"
  using series_counts_every_other_type_as_expense
    [of "\<lparr>date = ''2024-01-20'', category = ''Food'', description = ''lunch'', amount = Fin 5,
          type = CHR ''X'', id' = 2\<rparr>" 2024 1 20
        "[\<lparr>date = ''2024-01-15'', category = ''Pay'', description = ''salary'', amount = Fin 100,
           type = CHR ''I'', id' = 1\<rparr>]"]
  by code_simp
section \<open>Properties of the file\<close>

text \<open>
  Claim C5. Loading a file lets no exception escape, and a malformed record line is
  dropped. In the program a \<^verbatim>\<open>NEXT_ID\<close> line, a budget entry or a \<^verbatim>\<open>TRANS\<close> line whose
  number is no number makes \<^verbatim>\<open>stoi\<close> or \<^verbatim>\<open>stof\<close> throw, and nothing in \<^verbatim>\<open>loadFromFile\<close>
  or in \<^verbatim>\<open>main\<close> catches it.
\<close>

theorem load_throws_on_malformed_number:
  "loadFromFile ''USER|ann|pw\<newline>NEXT_ID|x\<newline>ENDUSER\<newline>'' = Inl Invalid_argument \<and>
   loadFromFile ''USER|ann|pw\<newline>NEXT_ID|1\<newline>BUDGETS|Food:much,\<newline>ENDUSER\<newline>'' = Inl Invalid_argument \<and>
   loadFromFile ''USER|ann|pw\<newline>TRANS|1|2024-01-20|Food|lunch|forty|E\<newline>ENDUSER\<newline>'' = Inl Invalid_argument \<and>
   loadFromFile ''USER|ann|pw\<newline>TRANS|99999999999|2024-01-20|Food|lunch|40|E\<newline>ENDUSER\<newline>'' = Inl Out_of_range"
  by code_simp


lemma takeWhile_until:
  "d \<notin> set l \<Longrightarrow> takeWhile (\<lambda>x. x \<noteq> d) (l @ d # rest) = l"
  by (induction l) auto

lemma dropWhile_until:
  "d \<notin> set l \<Longrightarrow> dropWhile (\<lambda>x. x \<noteq> d) (l @ d # rest) = d # rest"
  by (induction l) auto

lemma takeWhile_all:
  "d \<notin> set l \<Longrightarrow> takeWhile (\<lambda>x. x \<noteq> d) l = l"
  by (induction l) auto

lemma dropWhile_all:
  "d \<notin> set l \<Longrightarrow> dropWhile (\<lambda>x. x \<noteq> d) l = []"
  by (induction l) auto

lemma getline_loop_token:
  assumes "d \<notin> set l"
  shows "getline_loop d (l @ d # rest) = l # getline_loop d rest"
proof -
  obtain c s where cs: "l @ d # rest = c # s"
    by (cases "l @ d # rest") auto
  have "getline_loop d (c # s) =
          takeWhile (\<lambda>x. x \<noteq> d) (c # s) # getline_loop d (drop 1 (dropWhile (\<lambda>x. x \<noteq> d) (c # s)))"
    by simp
  then show ?thesis
    unfolding cs [symmetric] using assms by (simp add: takeWhile_until dropWhile_until)
qed

lemma getline_loop_last_token:
  assumes "d \<notin> set l" and "l \<noteq> []"
  shows "getline_loop d l = [l]"
proof -
  from assms obtain c s where cs: "l = c # s"
    by (cases l) auto
  have "getline_loop d (c # s) =
          takeWhile (\<lambda>x. x \<noteq> d) (c # s) # getline_loop d (drop 1 (dropWhile (\<lambda>x. x \<noteq> d) (c # s)))"
    by simp
  then show ?thesis
    unfolding cs [symmetric] using assms(1) by (simp add: takeWhile_all dropWhile_all)
qed


lemma load_lines_append:
  "load_lines st (xs @ ys) =
     (case load_lines st xs of Inl e \<Rightarrow> Inl e | Inr st' \<Rightarrow> load_lines st' ys)"
  by (induction xs arbitrary: st) (auto split: sum.splits)

lemma starts_with_TRANS:
  assumes "starts_with ''TRANS|'' line"
  shows "\<not> starts_with ''USER|'' line" and "\<not> starts_with ''NEXT_ID|'' line"
    and "\<not> starts_with ''BUDGETS|'' line" and "line \<noteq> ''ENDUSER''"
  using assms by (auto simp: starts_with_def take_Suc_conv_app_nth numeral_eq_Suc split: list.splits dest!: arg_cong [where f = hd])






lemma digit_chars: "map digit_char [0, 1, 2, 3, 4, 5, 6, 7, 8, 9] = ''0123456789''"
  by code_simp

lemma digit_vals: "map digit_val ''0123456789'' = [0, 1, 2, 3, 4, 5, 6, 7, 8, 9]"
  by code_simp

lemma digit_char_digit:
  assumes "0 \<le> k" and "k < 10"
  shows "isdigit (digit_char k)" and "digit_val (digit_char k) = k"
proof -
  from assms have "k = 0 \<or> k = 1 \<or> k = 2 \<or> k = 3 \<or> k = 4 \<or> k = 5 \<or> k = 6 \<or> k = 7 \<or> k = 8 \<or> k = 9"
    by arith
  then show "isdigit (digit_char k)" and "digit_val (digit_char k) = k"
    using digit_chars digit_vals by (auto simp: isdigit_def)
qed

lemma dec_val_snoc: "dec_val (ds @ [c]) = dec_val ds * 10 + digit_val c"
  by (simp add: dec_val_def)

lemma show_nat_digits:
  "0 \<le> n \<Longrightarrow> show_nat n \<noteq> [] \<and> list_all isdigit (show_nat n) \<and> dec_val (show_nat n) = n"
proof (induction n rule: show_nat.induct)
  case (1 n)
  show ?case
  proof (cases "n < 10")
    case True
    then have "show_nat n = [digit_char n]"
      by (subst show_nat.simps) simp
    with True "1.prems" show ?thesis
      by (simp add: digit_char_digit dec_val_def)
  next
    case False
    then have eq: "show_nat n = show_nat (n div 10) @ [digit_char (n mod 10)]"
      by (subst show_nat.simps) simp
    from False "1.prems" have "0 \<le> n div 10" "0 \<le> n mod 10" "n mod 10 < 10"
      by simp_all
    with "1.IH" False show ?thesis
      unfolding eq by (simp add: digit_char_digit dec_val_snoc)
  qed
qed

lemma show_int_text: "is_int_text (show_int n) \<and> int_of_text (show_int n) = n"
proof (cases "n < 0")
  case True
  with show_nat_digits [of "- n"] show ?thesis
    by (simp add: show_int_def is_int_text_def int_of_text_def strip_sign_def)
next
  case False
  with show_nat_digits [of n] have ds: "show_nat n \<noteq> []" "list_all isdigit (show_nat n)"
    "dec_val (show_nat n) = n"
    by simp_all
  then obtain c r where c: "show_nat n = c # r" "isdigit c"
    by (cases "show_nat n") auto
  then have "take 1 (show_nat n) \<noteq> ''-''" "take 1 (show_nat n) \<noteq> ''+''"
    using digit_not_sign by auto
  with False ds show ?thesis
    by (simp add: show_int_def is_int_text_def int_of_text_def strip_sign_def)
qed

lemma int_text_chars:
  assumes "is_int_text t" and "c \<in> set t"
  shows "isdigit c \<or> c = CHR ''-'' \<or> c = CHR ''+''"
proof (cases "take 1 t = ''-'' \<or> take 1 t = ''+''")
  case True
  then obtain s where t: "t = s # strip_sign t" and s: "s = CHR ''-'' \<or> s = CHR ''+''"
    by (cases t) (auto simp: strip_sign_def)
  from assms(2) t have "c = s \<or> c \<in> set (strip_sign t)"
    by (metis set_ConsD)
  with assms(1) s show ?thesis
    by (auto simp: is_int_text_def list_all_iff)
next
  case False
  then have "strip_sign t = t"
    by (simp add: strip_sign_def)
  with assms show ?thesis
    by (auto simp: is_int_text_def list_all_iff)
qed

lemma show_int_chars:
  assumes "c \<in> set (show_int n)"
  shows "isdigit c \<or> c = CHR ''-'' \<or> c = CHR ''+''"
  using int_text_chars [OF conjunct1 [OF show_int_text] assms] .

lemma show_int_free:
  "CHR ''|'' \<notin> set (show_int n)" "CHR 0x0A \<notin> set (show_int n)" "CHR 0x00 \<notin> set (show_int n)"
  using show_int_chars [of _ n] by (auto simp: isdigit_def)

lemma stoi_show_int:
  assumes "fits_int n"
  shows "stoi (show_int n) = Inr n"
proof -
  have c: "c_str (show_int n) = show_int n"
    by (simp add: c_str_def takeWhile_all show_int_free)
  from show_int_text have t: "is_int_text (show_int n)" "int_of_text (show_int n) = n"
    by simp_all
  from int_text_head [OF t(1), of "[]"]
  have "dropWhile isspace (show_int n) = show_int n"
    by (cases "show_int n") auto
  moreover from scan_int_text [OF t(1), of "[]"] t(2)
  have "scan_int (show_int n) = Some (n, [])"
    by simp
  ultimately show ?thesis
    using assms c by (simp add: stoi_def fits_int_def)
qed

lemma float_char_digit: "isdigit c \<Longrightarrow> float_char c"
  by (simp add: float_char_def)

lemma float_char_zero: "float_char (CHR ''0'')"
  by code_simp

lemma not_float_char:
  "\<not> float_char (CHR ''|'')" "\<not> float_char (CHR 0x0A)" "\<not> float_char (CHR '','')"
  by code_simp+

lemma show_nat_float_chars: "0 \<le> n \<Longrightarrow> list_all float_char (show_nat n)"
  using show_nat_digits [of n] by (simp add: list_all_iff float_char_digit)

lemma strip_zeros_subset: "set (strip_zeros ds) \<subseteq> set ds"
proof -
  have "set (dropWhile (\<lambda>c. c = CHR ''0'') (rev ds)) \<subseteq> set (rev ds)"
    by (rule set_dropWhileD [THEN subsetI])
  then show ?thesis
    by (simp add: strip_zeros_def)
qed

lemma with_fraction_chars:
  assumes "list_all float_char ip" and "list_all float_char fp"
  shows "list_all float_char (with_fraction ip fp)"
proof -
  from assms(2) strip_zeros_subset [of fp] have "list_all float_char (strip_zeros fp)"
    by (auto simp: list_all_iff)
  moreover have "float_char (CHR ''.'')"
    by (simp add: float_char_def)
  ultimately show ?thesis
    using assms(1) by (simp add: with_fraction_def Let_def)
qed

lemma show_exponent_chars: "list_all float_char (show_exponent x)"
proof -
  have "list_all float_char (show_nat \<bar>x\<bar>)"
    by (rule show_nat_float_chars) simp
  moreover have "float_char (CHR ''-'')" "float_char (CHR ''+'')"
    by (simp_all add: float_char_def)
  ultimately show ?thesis
    by (simp add: show_exponent_def Let_def float_char_zero)
qed

lemma round_half_even_nonneg:
  assumes "0 \<le> x"
  shows "0 \<le> round_half_even x"
proof -
  from assms have "0 \<le> \<lfloor>x\<rfloor>"
    by simp
  then show ?thesis
    by (simp add: round_half_even_def Let_def)
qed

lemma pow10_pos: "0 < pow10 e"
  by (simp add: pow10_def ipow_def)

lemma list_all_take: "list_all P xs \<Longrightarrow> list_all P (take n xs)"
  by (auto simp: list_all_iff dest: in_set_takeD)

lemma list_all_drop: "list_all P xs \<Longrightarrow> list_all P (drop n xs)"
  by (auto simp: list_all_iff dest: in_set_dropD)

lemma list_all_replicate: "P x \<Longrightarrow> list_all P (replicate n x)"
  by (induction n) simp_all

lemma fmt_g_chars:
  assumes "0 \<le> a"
  shows "list_all float_char (fmt_g a)"
proof -
  define d0 where "d0 = round_half_even (a / pow10 (ilog 10 a - 5))"
  define ds where "ds = show_nat (if d0 = 1000000 then 100000 else d0)"
  from assms have "0 \<le> a / pow10 (ilog 10 a - 5)"
    using pow10_pos [of "ilog 10 a - 5"] by simp
  then have "0 \<le> d0"
    unfolding d0_def by (rule round_half_even_nonneg)
  then have ds: "list_all float_char ds"
    unfolding ds_def by (intro show_nat_float_chars) simp
  have e: "list_all float_char (with_fraction (take 1 ds) (drop 1 ds) @ ''e'' @ show_exponent x)" for x
    using with_fraction_chars [OF list_all_take [OF ds] list_all_drop [OF ds], of 1 1]
      show_exponent_chars [of x]
    by (simp add: float_char_def)
  have f: "list_all float_char (with_fraction (take n ds) (drop n ds))" for n
    by (rule with_fraction_chars [OF list_all_take [OF ds] list_all_drop [OF ds]])
  have g: "list_all float_char (with_fraction ''0'' (replicate n (CHR ''0'') @ ds))" for n
    by (rule with_fraction_chars) (simp_all add: float_char_zero list_all_replicate ds)
  show ?thesis
    unfolding fmt_g_def Let_def d0_def [symmetric] ds_def [symmetric]
    using e f g by (simp del: append.simps)
qed

lemma show_float_chars: "list_all float_char (show_float a)"
proof (cases a)
  case (Fin q)
  show ?thesis
  proof (cases "q = 0")
    case True
    with Fin show ?thesis by (simp add: float_char_zero)
  next
    case False
    have "float_char (CHR ''-'')"
      by (simp add: float_char_def)
    with Fin False show ?thesis
      using fmt_g_chars [of q] fmt_g_chars [of "- q"] by simp
  qed
next
  case PInf
  then show ?thesis by (simp add: float_char_def)
next
  case NInf
  then show ?thesis by (simp add: float_char_def)
next
  case NaN
  then show ?thesis by (simp add: float_char_def)
qed

lemma show_float_free:
  "CHR ''|'' \<notin> set (show_float a)" "CHR 0x0A \<notin> set (show_float a)" "CHR '','' \<notin> set (show_float a)"
  using show_float_chars [of a] not_float_char by (auto simp: list_all_iff)

lemma map_put_last:
  "sorted_wrt (<) (map fst (m @ [(k, v)])) \<Longrightarrow> map_put k v m = m @ [(k, v)]"
proof (induction m)
  case Nil
  then show ?case by simp
next
  case (Cons e m)
  obtain k' v' where e: "e = (k', v')"
    by (cases e)
  from Cons.prems have less: "k' < k" and "sorted_wrt (<) (map fst (m @ [(k, v)]))"
    unfolding e by (auto simp: sorted_wrt_append)
  moreover from less have "k \<noteq> k'" "\<not> k < k'"
    by auto
  ultimately show ?case
    using Cons.IH unfolding e by simp
qed

lemma save_budget_token: "save_budget e = budget_token e @ '',''"
  by (cases e) (simp add: save_budget_def budget_token_def)

lemma budget_token_free:
  assumes "budget_savable e"
  shows "CHR '','' \<notin> set (budget_token e)"
  using assms by (cases e) (simp add: budget_savable_def budget_key_text_def budget_token_def show_float_free)

lemma budget_tokens:
  assumes "list_all budget_savable es"
  shows "getline_loop (CHR '','') (concat (map save_budget es)) = map budget_token es"
  using assms
proof (induction es)
  case Nil
  then show ?case by simp
next
  case (Cons e es)
  then have e: "budget_savable e" and es: "list_all budget_savable es"
    by simp_all
  have "concat (map save_budget (e # es)) = budget_token e @ CHR '','' # concat (map save_budget es)"
    by (simp add: save_budget_token)
  then show ?case
    by (simp only: getline_loop_token [OF budget_token_free [OF e]] Cons.IH [OF es] list.map)
qed

lemma load_budget_tokens:
  assumes "list_all budget_savable es" and "map_sorted (m @ es)"
  shows "load_budgets (map budget_token es) m = Inr (m @ es)"
  using assms
proof (induction es arbitrary: m)
  case Nil
  then show ?case by simp
next
  case (Cons e es)
  obtain cat val where e: "e = (cat, val)"
    by (cases e)
  let ?tok = "cat @ '':'' @ show_float val"
  from Cons.prems(1) have "budget_savable e" and es: "list_all budget_savable es"
    by simp_all
  then have cat: "CHR '':'' \<notin> set cat" and val: "stof (show_float val) = Inr val"
    unfolding e by (simp_all add: budget_savable_def budget_key_text_def float_survives_def)
  from cat have tok: "takeWhile (\<lambda>x. x \<noteq> CHR '':'') ?tok = cat"
    "dropWhile (\<lambda>x. x \<noteq> CHR '':'') ?tok = '':'' @ show_float val"
    using takeWhile_until [OF cat, of "show_float val"] dropWhile_until [OF cat, of "show_float val"]
    by simp_all
  from Cons.prems(2) have "sorted_wrt (<) (map fst (m @ [(cat, val)]))"
    unfolding e by (simp add: map_sorted_def sorted_wrt_append)
  then have put: "map_put cat val m = m @ [(cat, val)]"
    by (rule map_put_last)
  from Cons.prems(2) have "map_sorted ((m @ [(cat, val)]) @ es)"
    unfolding e by simp
  from Cons.IH [OF es this] tok val put show ?case
    unfolding e by (simp add: budget_token_def)
qed

lemma transaction_line_tokens:
  assumes "transaction_savable t"
  shows "getline_loop (CHR ''|'') (transaction_line t) =
           [''TRANS'', show_int (id' t), date t, category t, description t, show_float (amount t), [type t]]"
proof -
  let ?b = "CHR ''|''"
  from assms have free: "?b \<notin> set (date t)" "?b \<notin> set (category t)" "?b \<notin> set (description t)"
    "?b \<notin> set [type t]"
    by (auto simp: transaction_savable_def plain_text_def)
  have tag: "?b \<notin> set ''TRANS''"
    by simp
  have "transaction_line t =
      ''TRANS'' @ ?b # show_int (id' t) @ ?b # date t @ ?b # category t @ ?b # description t @ ?b #
      show_float (amount t) @ ?b # [type t]"
    by (simp add: transaction_line_def)
  then show ?thesis
    using getline_loop_last_token [OF free(4)]
    by (simp only: getline_loop_token [OF tag] getline_loop_token [OF show_int_free(1)]
        getline_loop_token [OF free(1)] getline_loop_token [OF free(2)]
        getline_loop_token [OF free(3)] getline_loop_token [OF show_float_free(1)]) simp
qed

lemma load_transaction_line:
  assumes "transaction_savable t"
  shows "load_transaction (getline_loop (CHR ''|'') (transaction_line t)) = Inr (Some t)"
proof -
  from assms have "stoi (show_int (id' t)) = Inr (id' t)" "stof (show_float (amount t)) = Inr (amount t)"
    by (simp_all add: transaction_savable_def stoi_show_int float_survives_def)
  then show ?thesis
    unfolding transaction_line_tokens [OF assms]
    by (simp add: load_transaction_def first_char_def)
qed

lemma getline_loop_lines:
  assumes "list_all (\<lambda>l. nl \<notin> set l) ls"
  shows "getline_loop nl (concat (map (\<lambda>l. l @ [nl]) ls)) = ls"
  using assms
proof (induction ls)
  case Nil
  then show ?case by simp
next
  case (Cons l ls)
  then have l: "nl \<notin> set l" and ls: "list_all (\<lambda>l. nl \<notin> set l) ls"
    by simp_all
  have "concat (map (\<lambda>l. l @ [nl]) (l # ls)) = l @ nl # concat (map (\<lambda>l. l @ [nl]) ls)"
    by simp
  then show ?case
    by (simp only: getline_loop_token [OF l] Cons.IH [OF ls])
qed

lemma save_user_lines: "save_user user = concat (map (\<lambda>l. l @ [nl]) (user_lines user))"
proof -
  have "concat (map save_transaction ts) = concat (map (\<lambda>l. l @ [nl]) (map transaction_line ts))" for ts
    by (induction ts) (simp_all add: save_transaction_def transaction_line_def)
  then show ?thesis
    by (simp add: save_user_def user_lines_def)
qed

lemma saveToFile_lines:
  "saveToFile us = concat (map (\<lambda>l. l @ [nl]) (concat (map user_lines us)))"
  by (induction us) (simp_all add: saveToFile_def save_user_lines)

lemma transaction_line_free:
  assumes "transaction_savable t"
  shows "nl \<notin> set (transaction_line t)"
  using assms
  by (auto simp: transaction_line_def transaction_savable_def plain_text_def show_int_free show_float_free)

lemma save_budget_free:
  assumes "budget_savable e"
  shows "nl \<notin> set (save_budget e)"
  using assms
  by (cases e) (simp add: save_budget_def budget_savable_def budget_key_text_def show_float_free)

lemma save_budgets_free:
  assumes "list_all budget_savable es"
  shows "nl \<notin> set (concat (map save_budget es))"
  using assms by (induction es) (simp_all add: save_budget_free)

lemma user_lines_free:
  assumes "profile_savable user"
  shows "list_all (\<lambda>l. nl \<notin> set l) (user_lines user)"
proof -
  from assms have "list_all transaction_savable (transactions user)"
    by (simp add: profile_savable_def)
  then have "list_all (\<lambda>l. nl \<notin> set l) (map transaction_line (transactions user))"
    by (simp add: list_all_iff transaction_line_free)
  moreover from assms have "nl \<notin> set (concat (map save_budget (budgetPerCategory user)))"
    by (intro save_budgets_free) (simp add: profile_savable_def)
  ultimately show ?thesis
    using assms
    by (simp add: user_lines_def profile_savable_def plain_text_def show_int_free del: set_concat)
qed

lemma registry_lines_free:
  assumes "registry_savable us"
  shows "list_all (\<lambda>l. nl \<notin> set l) (concat (map user_lines us))"
  using assms by (induction us) (simp_all add: registry_savable_def user_lines_free)

lemma user_line_fields:
  assumes "CHR ''|'' \<notin> set name" and "CHR ''|'' \<notin> set pw"
  shows "field (getline_loop (CHR ''|'') (''USER|'' @ name @ ''|'' @ pw)) 1 = name"
    and "field (getline_loop (CHR ''|'') (''USER|'' @ name @ ''|'' @ pw)) 2 = pw"
proof -
  let ?b = "CHR ''|''"
  have tag: "?b \<notin> set ''USER''"
    by simp
  have line: "''USER|'' @ name @ ''|'' @ pw = ''USER'' @ ?b # name @ ?b # pw"
    by simp
  have parts: "getline_loop ?b (''USER|'' @ name @ ''|'' @ pw) = ''USER'' # name # getline_loop ?b pw"
    unfolding line by (simp only: getline_loop_token [OF tag] getline_loop_token [OF assms(1)])
  show "field (getline_loop ?b (''USER|'' @ name @ ''|'' @ pw)) 1 = name"
    unfolding parts by (simp add: field_def)
  show "field (getline_loop ?b (''USER|'' @ name @ ''|'' @ pw)) 2 = pw"
  proof (cases "pw = []")
    case True
    then show ?thesis
      unfolding parts by (simp add: field_def)
  next
    case False
    with getline_loop_last_token [OF assms(2)] show ?thesis
      unfolding parts by (simp add: field_def)
  qed
qed

lemma upd_current_last:
  "upd_current f \<lparr>users = loaded @ [p], currentUser = Some (length loaded)\<rparr> =
     \<lparr>users = loaded @ [f p], currentUser = Some (length loaded)\<rparr>"
  by (simp add: upd_current_def)

lemma load_transaction_lines:
  assumes "list_all transaction_savable ts"
  shows "load_lines \<lparr>users = loaded @ [p], currentUser = Some (length loaded)\<rparr> (map transaction_line ts) =
           Inr \<lparr>users = loaded @ [p\<lparr>transactions := transactions p @ ts\<rparr>],
                currentUser = Some (length loaded)\<rparr>"
  using assms
proof (induction ts arbitrary: p)
  case Nil
  then show ?case by simp
next
  case (Cons t ts)
  then have t: "transaction_savable t" and ts: "list_all transaction_savable ts"
    by simp_all
  have tag: "starts_with ''TRANS|'' (transaction_line t)"
    by (simp add: starts_with_def transaction_line_def)
  have "load_line \<lparr>users = loaded @ [p], currentUser = Some (length loaded)\<rparr> (transaction_line t) =
          Inr \<lparr>users = loaded @ [p\<lparr>transactions := transactions p @ [t]\<rparr>],
               currentUser = Some (length loaded)\<rparr>"
    using starts_with_TRANS [OF tag] tag
    by (simp add: load_line_def load_transaction_line [OF t] upd_current_last)
  with Cons.IH [OF ts, of "p\<lparr>transactions := transactions p @ [t]\<rparr>"] show ?case
    by simp
qed

lemma load_user_lines:
  assumes "profile_savable user"
  shows "load_lines \<lparr>users = loaded, currentUser = None\<rparr> (user_lines user) =
           Inr \<lparr>users = loaded @ [user], currentUser = None\<rparr>"
proof -
  let ?p0 = "new_profile (username user) (password user)"
  let ?p1 = "?p0\<lparr>next_transaction_id := next_transaction_id user\<rparr>"
  let ?p2 = "?p1\<lparr>budgetPerCategory := budgetPerCategory user\<rparr>"
  let ?p3 = "?p2\<lparr>transactions := transactions ?p2 @ transactions user\<rparr>"
  let ?st = "\<lambda>p. \<lparr>users = loaded @ [p], currentUser = Some (length loaded)\<rparr>"
  from assms have name: "CHR ''|'' \<notin> set (username user)" "CHR ''|'' \<notin> set (password user)"
    and nid: "fits_int (next_transaction_id user)"
    and budgets: "list_all budget_savable (budgetPerCategory user)" "map_sorted ([] @ budgetPerCategory user)"
    and trans: "list_all transaction_savable (transactions user)"
    by (simp_all add: profile_savable_def plain_text_def)
  have 1: "load_line \<lparr>users = loaded, currentUser = None\<rparr>
             (''USER|'' @ username user @ ''|'' @ password user) = Inr (?st ?p0)"
    using user_line_fields [OF name]
    by (simp add: load_line_def starts_with_def del: getline_loop.simps)
  have 2: "load_line (?st ?p0) (''NEXT_ID|'' @ show_int (next_transaction_id user)) = Inr (?st ?p1)"
    by (simp add: load_line_def starts_with_def stoi_show_int [OF nid] upd_current_last)
  have 3: "load_line (?st ?p1) (''BUDGETS|'' @ concat (map save_budget (budgetPerCategory user))) =
             Inr (?st ?p2)"
    using load_budget_tokens [OF budgets]
    by (simp add: load_line_def starts_with_def budget_tokens [OF budgets(1)] upd_current_last
        new_profile_def del: getline_loop.simps)
  have 4: "load_lines (?st ?p2) (map transaction_line (transactions user)) = Inr (?st ?p3)"
    by (rule load_transaction_lines [OF trans])
  have 5: "load_line (?st ?p3) ''ENDUSER'' = Inr \<lparr>users = loaded @ [?p3], currentUser = None\<rparr>"
    by (simp add: load_line_def starts_with_def)
  have "?p3 = user"
    by (simp add: new_profile_def)
  with 1 2 3 4 5 show ?thesis
    by (simp add: user_lines_def load_lines_append del: load_line_def)
qed

lemma load_registry_lines:
  assumes "registry_savable us"
  shows "load_lines \<lparr>users = loaded, currentUser = None\<rparr> (concat (map user_lines us)) =
           Inr \<lparr>users = loaded @ us, currentUser = None\<rparr>"
  using assms
proof (induction us arbitrary: loaded)
  case Nil
  then show ?case by simp
next
  case (Cons u us)
  then have u: "profile_savable u" and us: "registry_savable us"
    by (simp_all add: registry_savable_def)
  from load_user_lines [OF u, of "loaded"] Cons.IH [OF us, of "loaded @ [u]"] show ?case
    by (simp add: load_lines_append)
qed

text \<open>
  Claim C1, as amended. For every registry whose user names, passwords, dates, categories
  and descriptions contain no \<^verbatim>\<open>|\<close> and no line break, whose budget categories contain no
  colon, comma or line break, whose type characters are neither \<^verbatim>\<open>|\<close> nor a line break,
  and whose amounts are read back as themselves from the text that \<^verbatim>\<open>saveToFile\<close> writes
  for them, loading the saved text gives the registry back: the same profiles in the same
  order, each with its user name, password, \<^verbatim>\<open>next_transaction_id\<close>, budgets and
  transactions.
\<close>

theorem load_of_save_is_identity:
  assumes "registry_savable us"
  shows "loadFromFile (saveToFile us) = Inr us"
  using load_registry_lines [OF assms, of "[]"]
  by (simp add: loadFromFile_def saveToFile_lines getline_loop_lines [OF registry_lines_free [OF assms]])

theorem load_of_save_is_identity_witness:
  "registry_savable
     [\<lparr>username = ''ann'', password = ''pw'',
          transactions =
            [\<lparr>date = ''2024-01-15'', category = ''Food'', description = ''lunch'', amount = Fin 18,
              type = CHR ''E'', id' = 1\<rparr>,
             \<lparr>date = ''2024-01-20'', category = ''Pay'', description = ''salary'',
              amount = Fin (25 / 2), type = CHR ''I'', id' = 3\<rparr>],
          budgetPerCategory = [(''Food'', Fin 20), (''Rent'', Fin (1201 / 2))],
          next_transaction_id = 4\<rparr>,
        new_profile ''bob'' []] \<and>
   saveToFile
     [\<lparr>username = ''ann'', password = ''pw'',
          transactions =
            [\<lparr>date = ''2024-01-15'', category = ''Food'', description = ''lunch'', amount = Fin 18,
              type = CHR ''E'', id' = 1\<rparr>,
             \<lparr>date = ''2024-01-20'', category = ''Pay'', description = ''salary'',
              amount = Fin (25 / 2), type = CHR ''I'', id' = 3\<rparr>],
          budgetPerCategory = [(''Food'', Fin 20), (''Rent'', Fin (1201 / 2))],
          next_transaction_id = 4\<rparr>,
        new_profile ''bob'' []] =
     ''USER|ann|pw\<newline>NEXT_ID|4\<newline>BUDGETS|Food:20,Rent:600.5,\<newline>TRANS|1|2024-01-15|Food|lunch|18|E\<newline>TRANS|3|2024-01-20|Pay|salary|12.5|I\<newline>ENDUSER\<newline>USER|bob|\<newline>NEXT_ID|1\<newline>BUDGETS|\<newline>ENDUSER\<newline>'' \<and>
   loadFromFile
     ''USER|ann|pw\<newline>NEXT_ID|4\<newline>BUDGETS|Food:20,Rent:600.5,\<newline>TRANS|1|2024-01-15|Food|lunch|18|E\<newline>TRANS|3|2024-01-20|Pay|salary|12.5|I\<newline>ENDUSER\<newline>USER|bob|\<newline>NEXT_ID|1\<newline>BUDGETS|\<newline>ENDUSER\<newline>'' =
     Inr [\<lparr>username = ''ann'', password = ''pw'',
          transactions =
            [\<lparr>date = ''2024-01-15'', category = ''Food'', description = ''lunch'', amount = Fin 18,
              type = CHR ''E'', id' = 1\<rparr>,
             \<lparr>date = ''2024-01-20'', category = ''Pay'', description = ''salary'',
              amount = Fin (25 / 2), type = CHR ''I'', id' = 3\<rparr>],
          budgetPerCategory = [(''Food'', Fin 20), (''Rent'', Fin (1201 / 2))],
          next_transaction_id = 4\<rparr>,
        new_profile ''bob'' []]"
proof -
  let ?r =
    "[\<lparr>username = ''ann'', password = ''pw'',
          transactions =
            [\<lparr>date = ''2024-01-15'', category = ''Food'', description = ''lunch'', amount = Fin 18,
              type = CHR ''E'', id' = 1\<rparr>,
             \<lparr>date = ''2024-01-20'', category = ''Pay'', description = ''salary'',
              amount = Fin (25 / 2), type = CHR ''I'', id' = 3\<rparr>],
          budgetPerCategory = [(''Food'', Fin 20), (''Rent'', Fin (1201 / 2))],
          next_transaction_id = 4\<rparr>,
        new_profile ''bob'' []]"
  have savable: "registry_savable ?r"
    by code_simp
  have saved: "saveToFile ?r =
     ''USER|ann|pw\<newline>NEXT_ID|4\<newline>BUDGETS|Food:20,Rent:600.5,\<newline>TRANS|1|2024-01-15|Food|lunch|18|E\<newline>TRANS|3|2024-01-20|Pay|salary|12.5|I\<newline>ENDUSER\<newline>USER|bob|\<newline>NEXT_ID|1\<newline>BUDGETS|\<newline>ENDUSER\<newline>''"
    by code_simp
  from load_of_save_is_identity [OF savable] savable saved show ?thesis
    by simp
qed

text \<open>
  Claim C1 as it is stated, for every registry, fails. The file format has no escape for
  its separators: a user name with a \<^verbatim>\<open>|\<close> is read back as a name and a password. And a
  \<^verbatim>\<open>float\<close> is written with six significant digits: the amount 1234567 is written as
  \<^verbatim>\<open>1.23457e+06\<close> and read back as 1234570.
\<close>

theorem load_of_save_differs:
  "loadFromFile (saveToFile [new_profile ''ann|x'' ''pw'']) = Inr [new_profile ''ann'' ''x''] \<and>
   new_profile ''ann'' ''x'' \<noteq> new_profile ''ann|x'' ''pw'' \<and>
   saveToFile
     [\<lparr>username = ''ann'', password = ''pw'',
       transactions =
         [\<lparr>date = ''2024-01-15'', category = ''Pay'', description = ''bonus'',
           amount = Fin 1234567, type = CHR ''I'', id' = 1\<rparr>],
       budgetPerCategory = [], next_transaction_id = 2\<rparr>] =
     ''USER|ann|pw\<newline>NEXT_ID|2\<newline>BUDGETS|\<newline>TRANS|1|2024-01-15|Pay|bonus|1.23457e+06|I\<newline>ENDUSER\<newline>'' \<and>
   loadFromFile
     ''USER|ann|pw\<newline>NEXT_ID|2\<newline>BUDGETS|\<newline>TRANS|1|2024-01-15|Pay|bonus|1.23457e+06|I\<newline>ENDUSER\<newline>'' =
     Inr [\<lparr>username = ''ann'', password = ''pw'',
            transactions =
              [\<lparr>date = ''2024-01-15'', category = ''Pay'', description = ''bonus'',
                amount = Fin 1234570, type = CHR ''I'', id' = 1\<rparr>],
            budgetPerCategory = [], next_transaction_id = 2\<rparr>]"
  by code_simp


end
